theory Spec2Isabelle
  imports Complex_Main
begin

section \<open>The page as the script sees it\<close>

text \<open>
  The script \<^verbatim>\<open>animations.js\<close> is one closure over three variables
  (\<^verbatim>\<open>isInitialized\<close>, \<^verbatim>\<open>container\<close>, \<^verbatim>\<open>sections\<close>) that talks to the browser:
  it queries the document, reads geometry, edits class lists, registers listeners, an
  intersection observer and timers, and writes one console warning.

  The browser is modelled as an explicit state. DOM elements have identity
  (\<^verbatim>\<open>section !== closestSection\<close> compares references), so an element is a reference
  into a store. JavaScript numbers are IEEE 754 doubles. The coordinates of rectangles,
  on which the script computes, are doubles with their rounding, their infinities and
  NaN (next section). An intersection ratio is only compared with the literals 0.3 and
  0.1 and is a real. Time is a natural number of milliseconds.
\<close>

section \<open>JavaScript numbers\<close>

text \<open>
  A double is NaN, an infinity, or a finite value \<open>m * 2 ^ e\<close>, written
  \<open>Finite m e\<close>. The finite doubles are those with \<open>\<bar>m\<bar> < 2 ^ 53\<close> and
  \<open>- 1074 \<le> e \<le> 971\<close>; one value has several such pairs. The two zeros are one
  value here: the script adds, halves, subtracts, takes absolute values and compares with
  \<^verbatim>\<open><\<close>, and none of these tells \<^verbatim>\<open>-0\<close> from \<^verbatim>\<open>+0\<close>.

  Sums, differences and halves of finite doubles are integers times a power of two, so
  every operation computes its exact result \<open>M * 2 ^ E\<close> in integers and rounds it
  once, as IEEE 754 prescribes: to the nearest value with 53 significant bits (fewer
  below \<open>2 ^ - 1022\<close>, where the spacing stays \<open>2 ^ - 1074\<close>), a tie to the one
  with the even significand, and to an infinity when the rounded magnitude reaches
  \<open>2 ^ 1024\<close>.
\<close>

datatype double = NaN | PosInfinity | NegInfinity | Finite int int

text \<open>The number of binary digits of a positive integer.\<close>

function bitlen :: "int \<Rightarrow> int" where
  "bitlen n = (if n \<le> 0 then 0 else 1 + bitlen (n div 2))"
  by pat_completeness auto
termination
  by (relation "measure nat") auto

declare bitlen.simps [simp del]

text \<open>\<open>M / 2 ^ k\<close> rounded to the nearest integer, a tie to the even one.\<close>

definition round_shift :: "int \<Rightarrow> nat \<Rightarrow> int" where
  "round_shift M k =
     (let q = M div 2 ^ k; r = M mod 2 ^ k
      in if 2 ^ k < 2 * r \<or> (2 * r = 2 ^ k \<and> odd q) then q + 1 else q)"

text \<open>
  The double nearest to the exact value \<open>M * 2 ^ E\<close>. The exponent \<open>e\<close> of the
  result's last place is the one that leaves 53 digits, and at least \<open>- 1074\<close>.
\<close>

definition round_double :: "int \<Rightarrow> int \<Rightarrow> double" where
  "round_double M E =
     (let e = max (E + bitlen \<bar>M\<bar> - 53) (- 1074);
          m = (if e \<le> E then M * 2 ^ nat (E - e) else round_shift M (nat (e - E)))
      in if 1024 < bitlen \<bar>m\<bar> + e
         then (if M < 0 then NegInfinity else PosInfinity)
         else Finite m e)"

text \<open>\<^verbatim>\<open>x + y\<close>.\<close>

fun js_add :: "double \<Rightarrow> double \<Rightarrow> double" where
  "js_add NaN y = NaN"
| "js_add x NaN = NaN"
| "js_add PosInfinity NegInfinity = NaN"
| "js_add NegInfinity PosInfinity = NaN"
| "js_add PosInfinity y = PosInfinity"
| "js_add x PosInfinity = PosInfinity"
| "js_add NegInfinity y = NegInfinity"
| "js_add x NegInfinity = NegInfinity"
| "js_add (Finite m1 e1) (Finite m2 e2) =
     (let E = min e1 e2 in round_double (m1 * 2 ^ nat (e1 - E) + m2 * 2 ^ nat (e2 - E)) E)"

fun js_neg :: "double \<Rightarrow> double" where
  "js_neg NaN = NaN"
| "js_neg PosInfinity = NegInfinity"
| "js_neg NegInfinity = PosInfinity"
| "js_neg (Finite m e) = Finite (- m) e"

text \<open>\<^verbatim>\<open>x - y\<close>, which IEEE 754 defines as \<^verbatim>\<open>x + (-y)\<close>.\<close>

definition js_sub :: "double \<Rightarrow> double \<Rightarrow> double" where
  "js_sub x y = js_add x (js_neg y)"

text \<open>\<^verbatim>\<open>x / 2\<close>, the only division of the script.\<close>

fun js_half :: "double \<Rightarrow> double" where
  "js_half (Finite m e) = round_double m (e - 1)"
| "js_half x = x"

text \<open>\<^verbatim>\<open>Math.abs(x)\<close>.\<close>

fun js_abs :: "double \<Rightarrow> double" where
  "js_abs NaN = NaN"
| "js_abs PosInfinity = PosInfinity"
| "js_abs NegInfinity = PosInfinity"
| "js_abs (Finite m e) = Finite \<bar>m\<bar> e"

text \<open>\<^verbatim>\<open>x < y\<close>: false when either side is NaN.\<close>

definition finite_lt :: "int \<Rightarrow> int \<Rightarrow> int \<Rightarrow> int \<Rightarrow> bool" where
  "finite_lt m1 e1 m2 e2 =
     (let E = min e1 e2 in m1 * 2 ^ nat (e1 - E) < m2 * 2 ^ nat (e2 - E))"

fun js_lt :: "double \<Rightarrow> double \<Rightarrow> bool" where
  "js_lt NaN y = False"
| "js_lt x NaN = False"
| "js_lt PosInfinity y = False"
| "js_lt x PosInfinity = True"
| "js_lt x NegInfinity = False"
| "js_lt NegInfinity y = True"
| "js_lt (Finite m1 e1) (Finite m2 e2) = finite_lt m1 e1 m2 e2"

text \<open>The real number that \<open>Finite m e\<close> stands for.\<close>

definition exact :: "int \<Rightarrow> int \<Rightarrow> real" where
  "exact m e = real_of_int m * 2 powi e"

type_synonym ref = nat

record DOMRect =
  rect_left :: double
  rect_width :: double

text \<open>
  A class list is a DOMTokenList: an ordered set of tokens. \<^verbatim>\<open>add\<close> appends a token
  that is absent, \<^verbatim>\<open>remove\<close> deletes it.
\<close>

record element =
  classList :: "string list"
  boundingClientRect :: DOMRect

datatype error = TypeError

datatype target = Window | Document | Element ref

datatype event_type = Scroll | TouchEnd | Resize | Load | DOMContentLoaded

text \<open>The functions the script registers as event listeners.\<close>

datatype handler =
    ObserverScroll    \<comment> \<open>lines 84-89: the scroll listener of observer mode\<close>
  | ObserverTouchEnd  \<comment> \<open>lines 92-94\<close>
  | HandleScroll      \<comment> \<open>lines 103-106: \<^verbatim>\<open>handleScroll\<close> of the fallback\<close>
  | InitListener      \<comment> \<open>line 160: \<^verbatim>\<open>init\<close> on DOMContentLoaded\<close>
  | LoadListener      \<comment> \<open>lines 166-169\<close>

text \<open>The functions the script hands to \<^verbatim>\<open>setTimeout\<close>.\<close>

datatype callback =
    CheckVisibleSection  \<comment> \<open>lines 86-88, 93, 105, 168\<close>
  | Init                 \<comment> \<open>line 167\<close>
  | MarkFirstSection     \<comment> \<open>lines 45-49\<close>

record timer =
  timer_id :: nat
  due :: nat
  callback :: callback

text \<open>Every call the script makes into the browser, in the order it makes them.\<close>

datatype call =
    QuerySelector string
  | QuerySelectorAll string
  | ConsoleWarn string
  | NewIntersectionObserver
  | Observe ref
  | AddEventListener target event_type handler
  | SetTimeout callback nat
  | ClearTimeout "nat option"
  | GetBoundingClientRect ref
  | OffsetWidth ref
  | ClassListRemove ref string
  | ClassListAdd ref string

record entry =
  entry_target :: ref
  isIntersecting :: bool
  intersectionRatio :: real

record world =
  \<comment> \<open>the browser\<close>
  heap :: "ref \<Rightarrow> element"
  snap_container :: "ref option"   \<comment> \<open>what \<^verbatim>\<open>querySelector('.snap-container')\<close> finds\<close>
  snap_pages :: "ref list"         \<comment> \<open>what \<^verbatim>\<open>querySelectorAll('section.snap-page')\<close> finds\<close>
  hasIntersectionObserver :: bool  \<comment> \<open>\<^verbatim>\<open>'IntersectionObserver' in window\<close>\<close>
  readyStateLoading :: bool        \<comment> \<open>\<^verbatim>\<open>document.readyState === 'loading'\<close>\<close>
  listeners :: "(target \<times> event_type \<times> handler) list"
  observed :: "ref list"
  timers :: "timer list"
  next_timer :: nat
  now :: nat
  calls :: "call list"
  \<comment> \<open>the closure's variables\<close>
  isInitialized :: bool
  container :: "ref option"
  sections :: "ref list"
  scrollTimer :: "nat option"

text \<open>
  \<^verbatim>\<open>scrollTimer\<close> is declared once in each setup function; \<^verbatim>\<open>init\<close> runs at most one
  of them, at most once, so one field holds it. \<^verbatim>\<open>None\<close> is \<^verbatim>\<open>undefined\<close>.
\<close>

definition IS_VISIBLE :: string where
  "IS_VISIBLE = ''is-visible''"

definition CONFIG_scrollDebounce :: nat where
  "CONFIG_scrollDebounce = 100"

section \<open>Browser operations\<close>

definition called :: "call \<Rightarrow> world \<Rightarrow> world" where
  "called c w = w\<lparr>calls := calls w @ [c]\<rparr>"

definition token_remove :: "string \<Rightarrow> string list \<Rightarrow> string list" where
  "token_remove c cl = filter (\<lambda>t. t \<noteq> c) cl"

definition token_add :: "string \<Rightarrow> string list \<Rightarrow> string list" where
  "token_add c cl = (if c \<in> set cl then cl else cl @ [c])"

definition classList_remove :: "ref \<Rightarrow> string \<Rightarrow> world \<Rightarrow> world" where
  "classList_remove r c w =
     called (ClassListRemove r c)
       (w\<lparr>heap := (heap w)(r := (heap w r)\<lparr>classList := token_remove c (classList (heap w r))\<rparr>)\<rparr>)"

definition classList_add :: "ref \<Rightarrow> string \<Rightarrow> world \<Rightarrow> world" where
  "classList_add r c w =
     called (ClassListAdd r c)
       (w\<lparr>heap := (heap w)(r := (heap w r)\<lparr>classList := token_add c (classList (heap w r))\<rparr>)\<rparr>)"

definition classList_contains :: "ref \<Rightarrow> string \<Rightarrow> world \<Rightarrow> bool" where
  "classList_contains r c w = (c \<in> set (classList (heap w r)))"

text \<open>\<^verbatim>\<open>void el.offsetWidth\<close>: a layout read whose value is thrown away.\<close>

definition offsetWidth :: "ref \<Rightarrow> world \<Rightarrow> world" where
  "offsetWidth r w = called (OffsetWidth r) w"

text \<open>
  A method call on \<^verbatim>\<open>null\<close> throws a TypeError. \<^verbatim>\<open>container\<close> is the one variable
  of the script that can be \<^verbatim>\<open>null\<close>, so the operations the script applies to it take
  an optional reference.
\<close>

definition getBoundingClientRect :: "ref option \<Rightarrow> world \<Rightarrow> error + (DOMRect \<times> world)" where
  "getBoundingClientRect t w =
     (case t of
        None \<Rightarrow> Inl TypeError
      | Some r \<Rightarrow> Inr (boundingClientRect (heap w r), called (GetBoundingClientRect r) w))"

definition addEventListener :: "ref option \<Rightarrow> event_type \<Rightarrow> handler \<Rightarrow> world \<Rightarrow> error + world" where
  "addEventListener t ev h w =
     (case t of
        None \<Rightarrow> Inl TypeError
      | Some r \<Rightarrow>
          Inr (called (AddEventListener (Element r) ev h)
                 (w\<lparr>listeners := listeners w @ [(Element r, ev, h)]\<rparr>)))"

definition global_addEventListener :: "target \<Rightarrow> event_type \<Rightarrow> handler \<Rightarrow> world \<Rightarrow> world" where
  "global_addEventListener t ev h w =
     called (AddEventListener t ev h) (w\<lparr>listeners := listeners w @ [(t, ev, h)]\<rparr>)"

text \<open>\<^verbatim>\<open>setTimeout\<close> returns the new timer's id together with the new state.\<close>

definition setTimeout :: "callback \<Rightarrow> nat \<Rightarrow> world \<Rightarrow> nat \<times> world" where
  "setTimeout cb delay w =
     (next_timer w,
      called (SetTimeout cb delay)
        (w\<lparr>timers := timers w @ [\<lparr>timer_id = next_timer w, due = now w + delay, callback = cb\<rparr>],
           next_timer := Suc (next_timer w)\<rparr>))"

text \<open>\<^verbatim>\<open>clearTimeout\<close> of \<^verbatim>\<open>undefined\<close>, or of a timer that has fired, does nothing.\<close>

definition clearTimeout :: "nat option \<Rightarrow> world \<Rightarrow> world" where
  "clearTimeout t w =
     called (ClearTimeout t)
       (w\<lparr>timers := filter (\<lambda>tm. Some (timer_id tm) \<noteq> t) (timers w)\<rparr>)"

definition console_warn :: "string \<Rightarrow> world \<Rightarrow> world" where
  "console_warn msg w = called (ConsoleWarn msg) w"

definition observe :: "ref \<Rightarrow> world \<Rightarrow> world" where
  "observe r w = called (Observe r) (w\<lparr>observed := observed w @ [r]\<rparr>)"

section \<open>checkVisibleSection (lines 118-154)\<close>

text \<open>\<^verbatim>\<open>rect.left + rect.width / 2\<close> (lines 122 and 129).\<close>

definition center :: "DOMRect \<Rightarrow> double" where
  "center rect = js_add (rect_left rect) (js_half (rect_width rect))"

text \<open>
  The first \<^verbatim>\<open>forEach\<close> (lines 127-136). The loop state is the pair
  \<^verbatim>\<open>(closestSection, minDistance)\<close>, which starts as \<^verbatim>\<open>(null, Infinity)\<close>; each
  round reads the section's rectangle and computes
  \<^verbatim>\<open>Math.abs(sectionCenter - viewportCenter)\<close>.
\<close>

definition distance :: "world \<Rightarrow> double \<Rightarrow> ref \<Rightarrow> double" where
  "distance w viewportCenter s =
     js_abs (js_sub (center (boundingClientRect (heap w s))) viewportCenter)"

fun closest_loop :: "world \<Rightarrow> double \<Rightarrow> ref list \<Rightarrow> ref option \<times> double \<Rightarrow> ref option \<times> double" where
  "closest_loop w viewportCenter [] st = st"
| "closest_loop w viewportCenter (s # ss) (closestSection, minDistance) =
     (if js_lt (distance w viewportCenter s) minDistance
      then closest_loop w viewportCenter ss (Some s, distance w viewportCenter s)
      else closest_loop w viewportCenter ss (closestSection, minDistance))"

definition closestSection :: "world \<Rightarrow> double \<Rightarrow> ref option" where
  "closestSection w viewportCenter =
     fst (closest_loop w viewportCenter (sections w) (None, PosInfinity))"

text \<open>The second \<^verbatim>\<open>forEach\<close> (lines 139-143).\<close>

fun reset_loop :: "ref option \<Rightarrow> ref list \<Rightarrow> world \<Rightarrow> world" where
  "reset_loop closest [] w = w"
| "reset_loop closest (s # ss) w =
     reset_loop closest ss (if Some s \<noteq> closest then classList_remove s IS_VISIBLE w else w)"

text \<open>
  Remove the class, read \<^verbatim>\<open>offsetWidth\<close> to force a reflow, add the class: lines
  148-152, and the same three statements on \<^verbatim>\<open>entry.target\<close> in lines 69-72.
\<close>

definition retrigger :: "ref \<Rightarrow> world \<Rightarrow> world" where
  "retrigger s w =
     classList_add s IS_VISIBLE (offsetWidth s (classList_remove s IS_VISIBLE w))"

text \<open>
  The first loop writes nothing, so its rectangle reads are recorded in one step
  (\<open>w2\<close>) and the section it selects is computed on the state after them.
\<close>

definition checkVisibleSection :: "world \<Rightarrow> error + world" where
  "checkVisibleSection w =
     (if container w = None then Inr w
      else
        case getBoundingClientRect (container w) w of
          Inl e \<Rightarrow> Inl e
        | Inr (containerRect, w1) \<Rightarrow>
            let viewportCenter = center containerRect;
                w2 = foldl (\<lambda>v s. called (GetBoundingClientRect s) v) w1 (sections w1);
                closest = closestSection w2 viewportCenter;
                w3 = reset_loop closest (sections w2) w2
            in (case closest of
                  None \<Rightarrow> Inr w3
                | Some s \<Rightarrow> Inr (retrigger s w3)))"

section \<open>The two setups and init (lines 25-113)\<close>

text \<open>The observer's callback (lines 64-78), one entry at a time.\<close>

definition observer_entry :: "entry \<Rightarrow> world \<Rightarrow> world" where
  "observer_entry e w =
     (if isIntersecting e \<and> intersectionRatio e \<ge> 3 / 10 then retrigger (entry_target e) w
      else if intersectionRatio e < 1 / 10 then classList_remove (entry_target e) IS_VISIBLE w
      else w)"

definition observer_callback :: "entry list \<Rightarrow> world \<Rightarrow> world" where
  "observer_callback entries w = foldl (\<lambda>v e. observer_entry e v) w entries"

definition setupIntersectionObserver :: "world \<Rightarrow> error + world" where
  "setupIntersectionObserver w =
     (let w1 = called NewIntersectionObserver w;
          w2 = foldl (\<lambda>v s. observe s v) w1 (sections w1)
      in case addEventListener (container w2) Scroll ObserverScroll w2 of
           Inl e \<Rightarrow> Inl e
         | Inr w3 \<Rightarrow> addEventListener (container w3) TouchEnd ObserverTouchEnd w3)"

definition setupScrollFallback :: "world \<Rightarrow> error + world" where
  "setupScrollFallback w =
     (case addEventListener (container w) Scroll HandleScroll w of
        Inl e \<Rightarrow> Inl e
      | Inr w1 \<Rightarrow> checkVisibleSection (global_addEventListener Window Resize HandleScroll w1))"

definition init :: "world \<Rightarrow> error + world" where
  "init w =
     (if isInitialized w then Inr w
      else
        let w1 = called (QuerySelector ''.snap-container'') (w\<lparr>container := snap_container w\<rparr>);
            w2 = called (QuerySelectorAll ''section.snap-page'') (w1\<lparr>sections := snap_pages w1\<rparr>)
        in if container w2 = None \<or> length (sections w2) = 0
           then Inr (console_warn ''Animation system: container or sections not found'' w2)
           else
             case (if hasIntersectionObserver w2 then setupIntersectionObserver w2
                   else setupScrollFallback w2) of
               Inl e \<Rightarrow> Inl e
             | Inr w3 \<Rightarrow> Inr ((snd (setTimeout MarkFirstSection 50 w3))\<lparr>isInitialized := True\<rparr>))"

section \<open>Listeners, timer callbacks and the top level (lines 45-49, 84-94, 103-106, 159-180)\<close>

definition mark_first_section :: "world \<Rightarrow> world" where
  "mark_first_section w =
     (case sections w of [] \<Rightarrow> w | s # _ \<Rightarrow> classList_add s IS_VISIBLE w)"

fun run_callback :: "callback \<Rightarrow> world \<Rightarrow> error + world" where
  "run_callback CheckVisibleSection w = checkVisibleSection w"
| "run_callback Init w = init w"
| "run_callback MarkFirstSection w = Inr (mark_first_section w)"

definition debounce_scroll :: "world \<Rightarrow> world" where
  "debounce_scroll w =
     (let w1 = clearTimeout (scrollTimer w) w;
          (t, w2) = setTimeout CheckVisibleSection CONFIG_scrollDebounce w1
      in w2\<lparr>scrollTimer := Some t\<rparr>)"

fun run_handler :: "handler \<Rightarrow> world \<Rightarrow> error + world" where
  "run_handler ObserverScroll w = Inr (debounce_scroll w)"
| "run_handler HandleScroll w = Inr (debounce_scroll w)"
| "run_handler ObserverTouchEnd w = Inr (snd (setTimeout CheckVisibleSection 200 w))"
| "run_handler InitListener w = init w"
| "run_handler LoadListener w =
     Inr (snd (setTimeout CheckVisibleSection 200 (snd (setTimeout Init 100 w))))"

text \<open>The body of the script: what runs when the file is loaded.\<close>

definition script :: "world \<Rightarrow> error + world" where
  "script w =
     (case (if readyStateLoading w
            then Inr (global_addEventListener Document DOMContentLoaded InitListener w)
            else init w) of
        Inl e \<Rightarrow> Inl e
      | Inr w1 \<Rightarrow> Inr (global_addEventListener Window Load LoadListener w1))"

text \<open>\<^verbatim>\<open>getState\<close> of the debugging object (lines 175-179).\<close>

record tracker_state =
  state_isInitialized :: bool
  sectionsCount :: nat
  visibleSections :: nat

definition getState :: "world \<Rightarrow> tracker_state" where
  "getState w =
     \<lparr>state_isInitialized = isInitialized w,
      sectionsCount = length (sections w),
      visibleSections = length (filter (\<lambda>s. classList_contains s IS_VISIBLE w) (sections w))\<rparr>"

section \<open>What one recompute does to the page\<close>

text \<open>
  The effect of the loops of \<^verbatim>\<open>checkVisibleSection\<close> in closed form: the store after
  the reset loop and after the whole recompute, and the calls one recompute makes. These
  are descriptions for the lemmas below; the functions above are the code.
\<close>

definition unmark :: "element \<Rightarrow> element" where
  "unmark e = e\<lparr>classList := token_remove IS_VISIBLE (classList e)\<rparr>"

definition mark :: "element \<Rightarrow> element" where
  "mark e = e\<lparr>classList := token_add IS_VISIBLE (classList e)\<rparr>"

definition reset_heap :: "ref option \<Rightarrow> ref list \<Rightarrow> (ref \<Rightarrow> element) \<Rightarrow> ref \<Rightarrow> element" where
  "reset_heap closest ss h r = (if r \<in> set ss \<and> Some r \<noteq> closest then unmark (h r) else h r)"

definition recompute_heap :: "ref option \<Rightarrow> ref list \<Rightarrow> (ref \<Rightarrow> element) \<Rightarrow> ref \<Rightarrow> element" where
  "recompute_heap closest ss h r =
     (if Some r = closest then mark (unmark (h r)) else if r \<in> set ss then unmark (h r) else h r)"

definition retrigger_calls :: "ref \<Rightarrow> call list" where
  "retrigger_calls s = [ClassListRemove s IS_VISIBLE, OffsetWidth s, ClassListAdd s IS_VISIBLE]"

definition recompute_calls :: "ref \<Rightarrow> ref option \<Rightarrow> ref list \<Rightarrow> call list" where
  "recompute_calls c closest ss =
     GetBoundingClientRect c # map GetBoundingClientRect ss
     @ map (\<lambda>s. ClassListRemove s IS_VISIBLE) (filter (\<lambda>s. Some s \<noteq> closest) ss)
     @ (case closest of None \<Rightarrow> [] | Some s \<Rightarrow> retrigger_calls s)"

lemma reads_frame:
  "foldl (\<lambda>v s. called (GetBoundingClientRect s) v) w ss
     = w\<lparr>calls := calls w @ map GetBoundingClientRect ss\<rparr>"
  by (induction ss arbitrary: w) (simp_all add: called_def)

lemma closest_loop_heap:
  "heap v = heap w \<Longrightarrow> closest_loop v vc ss st = closest_loop w vc ss st"
  by (induction w vc ss st rule: closest_loop.induct) (simp_all add: distance_def)

lemma closestSection_cong:
  "heap v = heap w \<Longrightarrow> sections v = sections w \<Longrightarrow> closestSection v vc = closestSection w vc"
  by (simp add: closestSection_def closest_loop_heap [of v w])

lemma unmark_idem: "unmark (unmark e) = unmark e"
  by (simp add: unmark_def token_remove_def)

lemma reset_heap_Nil: "reset_heap closest [] h = h"
  by (simp add: reset_heap_def fun_eq_iff)

lemma reset_heap_Cons_other:
  "Some s \<noteq> closest \<Longrightarrow> reset_heap closest ss (h(s := unmark (h s))) = reset_heap closest (s # ss) h"
  by (auto simp: reset_heap_def fun_eq_iff unmark_idem)

lemma reset_heap_Cons_same:
  "Some s = closest \<Longrightarrow> reset_heap closest ss h = reset_heap closest (s # ss) h"
  by (auto simp: reset_heap_def fun_eq_iff)

lemma classList_remove_frame:
  "classList_remove s IS_VISIBLE w =
     w\<lparr>heap := (heap w)(s := unmark (heap w s)), calls := calls w @ [ClassListRemove s IS_VISIBLE]\<rparr>"
  by (simp add: classList_remove_def called_def unmark_def)

lemma classList_add_frame:
  "classList_add s IS_VISIBLE w =
     w\<lparr>heap := (heap w)(s := mark (heap w s)), calls := calls w @ [ClassListAdd s IS_VISIBLE]\<rparr>"
  by (simp add: classList_add_def called_def mark_def)

lemma offsetWidth_frame: "offsetWidth s w = w\<lparr>calls := calls w @ [OffsetWidth s]\<rparr>"
  by (simp add: offsetWidth_def called_def)

lemma retrigger_frame:
  "retrigger s w =
     w\<lparr>heap := (heap w)(s := mark (unmark (heap w s))), calls := calls w @ retrigger_calls s\<rparr>"
  by (simp add: retrigger_def classList_add_frame classList_remove_frame offsetWidth_frame
      retrigger_calls_def)

lemma reset_loop_frame:
  "reset_loop closest ss w =
     w\<lparr>heap := reset_heap closest ss (heap w),
       calls := calls w @ map (\<lambda>s. ClassListRemove s IS_VISIBLE) (filter (\<lambda>s. Some s \<noteq> closest) ss)\<rparr>"
proof (induction ss arbitrary: w)
  case Nil
  show ?case by (simp add: reset_heap_Nil)
next
  case (Cons s ss)
  show ?case
  proof (cases "Some s = closest")
    case True
    then show ?thesis
      using reset_heap_Cons_same [OF True, of ss "heap w"] by (simp add: Cons.IH)
  next
    case False
    have "reset_loop closest (s # ss) w = reset_loop closest ss (classList_remove s IS_VISIBLE w)"
      using False by simp
    also have "\<dots> = (classList_remove s IS_VISIBLE w)
        \<lparr>heap := reset_heap closest ss (heap (classList_remove s IS_VISIBLE w)),
         calls := calls (classList_remove s IS_VISIBLE w)
            @ map (\<lambda>s. ClassListRemove s IS_VISIBLE) (filter (\<lambda>s. Some s \<noteq> closest) ss)\<rparr>"
      by (rule Cons.IH)
    also have "heap (classList_remove s IS_VISIBLE w) = (heap w)(s := unmark (heap w s))"
      by (simp add: classList_remove_frame del: fun_upd_apply)
    also have "reset_heap closest ss ((heap w)(s := unmark (heap w s))) = reset_heap closest (s # ss) (heap w)"
      by (rule reset_heap_Cons_other [OF False])
    finally show ?thesis
      using False by (simp add: classList_remove_frame)
  qed
qed

lemma recompute_heap_None: "reset_heap None ss h = recompute_heap None ss h"
  by (auto simp: reset_heap_def recompute_heap_def fun_eq_iff)

lemma recompute_heap_Some:
  "(reset_heap (Some s) ss h)(s := mark (unmark (reset_heap (Some s) ss h s))) = recompute_heap (Some s) ss h"
  by (auto simp: reset_heap_def recompute_heap_def fun_eq_iff)


lemma reads_after_container:
  "foldl (\<lambda>v s. called (GetBoundingClientRect s) v) (called (GetBoundingClientRect c) w)
      (sections (called (GetBoundingClientRect c) w))
   = w\<lparr>calls := calls w @ GetBoundingClientRect c # map GetBoundingClientRect (sections w)\<rparr>"
  unfolding reads_frame by (simp add: called_def)

lemma checkVisibleSection_unfold:
  assumes "container w = Some c"
  shows "checkVisibleSection w =
     (let w2 = w\<lparr>calls := calls w @ GetBoundingClientRect c # map GetBoundingClientRect (sections w)\<rparr>;
          closest = closestSection w (center (boundingClientRect (heap w c)))
      in case closest of None \<Rightarrow> Inr (reset_loop None (sections w) w2)
         | Some s \<Rightarrow> Inr (retrigger s (reset_loop (Some s) (sections w) w2)))"
proof -
  have cl: "closestSection (w\<lparr>calls := calls w @ GetBoundingClientRect c # map GetBoundingClientRect (sections w)\<rparr>) vc
      = closestSection w vc" for vc
    by (rule closestSection_cong) simp_all
  show ?thesis
    using assms
    by (simp add: checkVisibleSection_def getBoundingClientRect_def reads_after_container cl Let_def
        split: option.splits)
qed

lemma checkVisibleSection_frame:
  assumes "container w = Some c"
  shows "checkVisibleSection w =
     Inr (w\<lparr>heap := recompute_heap (closestSection w (center (boundingClientRect (heap w c)))) (sections w) (heap w),
           calls := calls w @ recompute_calls c (closestSection w (center (boundingClientRect (heap w c)))) (sections w)\<rparr>)"
proof (cases "closestSection w (center (boundingClientRect (heap w c)))")
  case None
  then show ?thesis
    by (simp add: checkVisibleSection_unfold [OF assms] reset_loop_frame recompute_heap_None
        recompute_calls_def)
next
  case (Some s)
  have "(reset_heap (Some s) (sections w) (heap w))(s := mark (unmark (reset_heap (Some s) (sections w) (heap w) s)))
      = recompute_heap (Some s) (sections w) (heap w)"
    by (rule recompute_heap_Some)
  then show ?thesis
    using Some
    by (simp add: checkVisibleSection_unfold [OF assms] reset_loop_frame retrigger_frame
        recompute_calls_def del: fun_upd_apply)
qed


section \<open>Example pages\<close>

text \<open>
  A page whose container (reference 0) is 1000 wide at the left edge, so its centre is
  at 500, with one section 200 wide (references 1, 2, ...) around each given centre.
  All coordinates are whole numbers. \<^verbatim>\<open>example_page\<close> is the page before the script
  has run. \<^verbatim>\<open>example_tracker\<close> is a state of the tracker on the same page: the
  container and the sections are set, the two listeners of observer mode are registered,
  and no timer is pending.
\<close>

fun number_from :: "nat \<Rightarrow> 'a list \<Rightarrow> nat list" where
  "number_from n [] = []"
| "number_from n (x # xs) = n # number_from (Suc n) xs"

definition example_heap :: "int list \<Rightarrow> ref \<Rightarrow> element" where
  "example_heap centers r =
     \<lparr>classList = [],
      boundingClientRect =
        (if r = 0 then \<lparr>rect_left = Finite 0 0, rect_width = Finite 1000 0\<rparr>
         else if r \<le> length centers
         then \<lparr>rect_left = Finite (centers ! (r - 1) - 100) 0, rect_width = Finite 200 0\<rparr>
         else \<lparr>rect_left = Finite 0 0, rect_width = Finite 0 0\<rparr>)\<rparr>"

definition example_page :: "int list \<Rightarrow> world" where
  "example_page centers =
     \<lparr>heap = example_heap centers,
      snap_container = Some 0, snap_pages = number_from 1 centers,
      hasIntersectionObserver = True, readyStateLoading = False,
      listeners = [], observed = [], timers = [], next_timer = 1, now = 0, calls = [],
      isInitialized = False, container = None, sections = [], scrollTimer = None\<rparr>"

definition example_tracker :: "int list \<Rightarrow> world" where
  "example_tracker centers =
     (example_page centers)
       \<lparr>listeners := [(Element 0, Scroll, ObserverScroll), (Element 0, TouchEnd, ObserverTouchEnd)],
        observed := number_from 1 centers,
        isInitialized := True, container := Some 0, sections := number_from 1 centers\<rparr>"

section \<open>Order and rounding of doubles\<close>

lemma scaled_exact:
  assumes "E \<le> e"
  shows "real_of_int (m * 2 ^ nat (e - E)) = exact m e / 2 powi E"
proof -
  have "(2::real) ^ nat (e - E) = 2 powi (e - E)"
    using assms by (simp add: power_int_def)
  also have "\<dots> = 2 powi e / 2 powi E"
    by (simp add: power_int_diff)
  finally show ?thesis by (simp add: exact_def)
qed

lemma finite_lt_iff: "finite_lt m1 e1 m2 e2 \<longleftrightarrow> exact m1 e1 < exact m2 e2"
proof -
  define E where "E = min e1 e2"
  have p: "0 < (2::real) powi E" by simp
  have p': "\<not> (2::real) powi E < 0" using p by (meson less_asym)
  have e: "E \<le> e1" "E \<le> e2" by (simp_all add: E_def)
  have "finite_lt m1 e1 m2 e2 \<longleftrightarrow> real_of_int (m1 * 2 ^ nat (e1 - E)) < real_of_int (m2 * 2 ^ nat (e2 - E))"
    unfolding finite_lt_def Let_def E_def [symmetric] by (simp only: of_int_less_iff)
  also have "\<dots> \<longleftrightarrow> exact m1 e1 / 2 powi E < exact m2 e2 / 2 powi E"
    unfolding scaled_exact [of E e1 m1, OF e(1)] scaled_exact [of E e2 m2, OF e(2)] ..
  also have "\<dots> \<longleftrightarrow> exact m1 e1 < exact m2 e2"
    using p p' by (simp add: divide_less_cancel)
  finally show ?thesis .
qed

lemma js_lt_trans: "js_lt x y \<Longrightarrow> js_lt y z \<Longrightarrow> js_lt x z"
  by (cases x; cases y; cases z) (simp_all add: finite_lt_iff)

lemma js_lt_between: "js_lt x m \<Longrightarrow> \<not> js_lt y m \<Longrightarrow> js_lt y PosInfinity \<Longrightarrow> js_lt x y"
  by (cases x; cases y; cases m) (simp_all add: finite_lt_iff)

lemma js_lt_irrefl: "\<not> js_lt x x"
  by (cases x) (simp_all add: finite_lt_iff)

text \<open>
  Rounding at work: \<^verbatim>\<open>0.1 + 512\<close> is \<^verbatim>\<open>512.1\<close>; \<^verbatim>\<open>2 ** 53 + 1\<close> is a tie and goes
  to the even \<^verbatim>\<open>2 ** 53\<close>, \<^verbatim>\<open>2 ** 53 + 3\<close> to \<^verbatim>\<open>2 ** 53 + 4\<close>; half of the
  smallest positive double is 0; \<^verbatim>\<open>Number.MAX_VALUE + Number.MAX_VALUE / 2\<close>
  is \<^verbatim>\<open>Infinity\<close>, and \<^verbatim>\<open>Infinity - Infinity\<close> is NaN.
\<close>

lemma rounding_examples:
  "js_add (Finite 3602879701896397 (- 55)) (Finite 512 0) = Finite 4504479236672717 (- 43)"
  "js_add (Finite 9007199254740992 0) (Finite 1 0) = Finite 4503599627370496 1"
  "js_add (Finite 9007199254740992 0) (Finite 3 0) = Finite 4503599627370498 1"
  "js_half (Finite 1 (- 1074)) = Finite 0 (- 1074)"
  "js_add (Finite 9007199254740991 971) (js_half (Finite 9007199254740991 971)) = PosInfinity"
  "js_sub PosInfinity PosInfinity = NaN"
  by code_simp+

section \<open>Which section the recompute selects\<close>

text \<open>
  A computed distance can replace \<^verbatim>\<open>minDistance\<close> only if it is below
  \<^verbatim>\<open>Infinity\<close>, which NaN and \<^verbatim>\<open>Infinity\<close> are not. The invariant of the first
  loop: after the sections \<open>xs\<close> the pair \<^verbatim>\<open>(closestSection, minDistance)\<close> is still
  \<^verbatim>\<open>(null, Infinity)\<close> when no distance so far was below \<^verbatim>\<open>Infinity\<close>, and
  otherwise names the first position of \<open>xs\<close> whose distance no other is below.
\<close>

definition first_minimum :: "(ref \<Rightarrow> double) \<Rightarrow> ref list \<Rightarrow> nat \<Rightarrow> bool" where
  "first_minimum d xs i \<longleftrightarrow>
     i < length xs \<and> js_lt (d (xs ! i)) PosInfinity
     \<and> (\<forall>j<length xs. \<not> js_lt (d (xs ! j)) (d (xs ! i)))
     \<and> (\<forall>j<i. js_lt (d (xs ! i)) (d (xs ! j)) \<or> \<not> js_lt (d (xs ! j)) PosInfinity)"

definition loop_inv :: "(ref \<Rightarrow> double) \<Rightarrow> ref list \<Rightarrow> ref option \<times> double \<Rightarrow> bool" where
  "loop_inv d xs st \<longleftrightarrow>
     ((\<forall>j<length xs. \<not> js_lt (d (xs ! j)) PosInfinity) \<and> st = (None, PosInfinity))
     \<or> (\<exists>i. first_minimum d xs i \<and> st = (Some (xs ! i), d (xs ! i)))"

lemma first_minimum_start:
  assumes "\<forall>j<length xs. \<not> js_lt (d (xs ! j)) PosInfinity" and "js_lt (d s) PosInfinity"
  shows "first_minimum d (xs @ [s]) (length xs)"
proof -
  have "\<not> js_lt (d (xs ! j)) (d s)" if "j < length xs" for j
    using assms that js_lt_trans by blast
  then show ?thesis
    using assms by (auto simp: first_minimum_def nth_append less_Suc_eq js_lt_irrefl)
qed

lemma first_minimum_new:
  assumes "first_minimum d xs i" and "js_lt (d s) (d (xs ! i))"
  shows "first_minimum d (xs @ [s]) (length xs)"
proof -
  have i: "i < length xs" "js_lt (d (xs ! i)) PosInfinity"
    "\<And>j. j < length xs \<Longrightarrow> \<not> js_lt (d (xs ! j)) (d (xs ! i))"
    using assms(1) by (simp_all add: first_minimum_def)
  have 1: "js_lt (d s) PosInfinity"
    using assms(2) i(2) js_lt_trans by blast
  have 2: "\<not> js_lt (d (xs ! j)) (d s)" if "j < length xs" for j
    using i(3) [OF that] assms(2) js_lt_trans by blast
  have 3: "js_lt (d s) (d (xs ! j)) \<or> \<not> js_lt (d (xs ! j)) PosInfinity" if "j < length xs" for j
    using i(3) [OF that] assms(2) js_lt_between by blast
  show ?thesis
    using 1 2 3 by (auto simp: first_minimum_def nth_append less_Suc_eq js_lt_irrefl)
qed

lemma first_minimum_keep:
  assumes "first_minimum d xs i" and "\<not> js_lt (d s) (d (xs ! i))"
  shows "first_minimum d (xs @ [s]) i"
  using assms unfolding first_minimum_def
  by (auto simp: nth_append less_Suc_eq)

lemma loop_inv_step:
  assumes "loop_inv d xs (c, m)"
  shows "loop_inv d (xs @ [s]) (if js_lt (d s) m then (Some s, d s) else (c, m))"
proof (cases "\<exists>i. first_minimum d xs i \<and> (c, m) = (Some (xs ! i), d (xs ! i))")
  case True
  then obtain i where i: "first_minimum d xs i" "c = Some (xs ! i)" "m = d (xs ! i)"
    by auto
  show ?thesis
  proof (cases "js_lt (d s) (d (xs ! i))")
    case True
    from first_minimum_new [OF i(1) True] show ?thesis
      using True i by (auto simp: loop_inv_def)
  next
    case False
    from first_minimum_keep [OF i(1) False] have "first_minimum d (xs @ [s]) i" .
    moreover have "(xs @ [s]) ! i = xs ! i"
      using i(1) by (simp add: first_minimum_def nth_append)
    ultimately show ?thesis
      using False i by (auto simp: loop_inv_def)
  qed
next
  case False
  with assms have n: "\<forall>j<length xs. \<not> js_lt (d (xs ! j)) PosInfinity" "c = None" "m = PosInfinity"
    by (auto simp: loop_inv_def)
  show ?thesis
  proof (cases "js_lt (d s) PosInfinity")
    case True
    from first_minimum_start [OF n(1) True] show ?thesis
      using True n by (auto simp: loop_inv_def)
  next
    case False
    then show ?thesis
      using n by (auto simp: loop_inv_def nth_append less_Suc_eq)
  qed
qed

lemma closest_loop_inv:
  "loop_inv (distance w vc) xs st \<Longrightarrow> loop_inv (distance w vc) (xs @ ss) (closest_loop w vc ss st)"
proof (induction ss arbitrary: xs st)
  case Nil
  then show ?case by simp
next
  case (Cons s ss)
  obtain c m where st: "st = (c, m)" by (cases st)
  from loop_inv_step [OF Cons.prems [unfolded st], of s]
  have "loop_inv (distance w vc) ((xs @ [s]) @ ss)
      (closest_loop w vc ss (if js_lt (distance w vc s) m then (Some s, distance w vc s) else (c, m)))"
    by (rule Cons.IH)
  then show ?case by (auto simp: st split: if_splits)
qed

lemma closestSection_cases:
  "(\<exists>i. first_minimum (distance w vc) (sections w) i \<and> closestSection w vc = Some (sections w ! i))
   \<or> ((\<forall>j<length (sections w). \<not> js_lt (distance w vc (sections w ! j)) PosInfinity)
       \<and> closestSection w vc = None)"
proof -
  have "loop_inv (distance w vc) [] (None, PosInfinity)" by (simp add: loop_inv_def)
  from closest_loop_inv [OF this, of "sections w"]
  show ?thesis by (auto simp: loop_inv_def closestSection_def)
qed

lemma closestSection_in:
  "closestSection w vc = None \<or> (\<exists>s\<in>set (sections w). closestSection w vc = Some s)"
  using closestSection_cases [of w vc] by (auto simp: first_minimum_def)

lemma closestSection_some:
  assumes "s \<in> set (sections w)" and "js_lt (distance w vc s) PosInfinity"
  shows "\<exists>i. first_minimum (distance w vc) (sections w) i \<and> closestSection w vc = Some (sections w ! i)"
proof -
  from assms(1) obtain j where "j < length (sections w)" "sections w ! j = s"
    by (auto simp: in_set_conv_nth)
  with assms(2) show ?thesis
    using closestSection_cases [of w vc] by auto
qed

lemma closestSection_none:
  assumes "\<forall>s\<in>set (sections w). \<not> js_lt (distance w vc s) PosInfinity"
  shows "closestSection w vc = None"
  using closestSection_cases [of w vc] assms by (auto simp: first_minimum_def)

lemma checkVisibleSection_selected:
  assumes "container w = Some c"
    and "closestSection w (center (boundingClientRect (heap w c))) = Some s"
  shows "s \<in> set (sections w)
     \<and> checkVisibleSection w =
         Inr (w\<lparr>heap := recompute_heap (Some s) (sections w) (heap w),
               calls := calls w @ recompute_calls c (Some s) (sections w)\<rparr>)"
  using checkVisibleSection_frame [OF assms(1)] assms(2)
    closestSection_in [of w "center (boundingClientRect (heap w c))"]
  by auto

lemma checkVisibleSection_unselected:
  assumes "container w = Some c"
    and "closestSection w (center (boundingClientRect (heap w c))) = None"
  shows "checkVisibleSection w =
         Inr (w\<lparr>heap := recompute_heap None (sections w) (heap w),
               calls := calls w @ recompute_calls c None (sections w)\<rparr>)"
  using checkVisibleSection_frame [OF assms(1)] assms(2) by simp

lemma marker_in_mark: "IS_VISIBLE \<in> set (classList (mark e))"
  by (simp add: mark_def token_add_def)

lemma marker_notin_unmark: "IS_VISIBLE \<notin> set (classList (unmark e))"
  by (simp add: unmark_def token_remove_def)

lemma recompute_heap_marker:
  "r \<in> set ss \<Longrightarrow> IS_VISIBLE \<in> set (classList (recompute_heap (Some s) ss h r)) \<longleftrightarrow> r = s"
  by (simp add: recompute_heap_def marker_in_mark marker_notin_unmark)

lemma recompute_heap_no_marker:
  "r \<in> set ss \<Longrightarrow> IS_VISIBLE \<notin> set (classList (recompute_heap None ss h r))"
  by (simp add: recompute_heap_def marker_notin_unmark)

text \<open>
  The real number a finite double stands for, and the distance between the centres of a
  section and of the container in real arithmetic, without any rounding.
\<close>

fun real_of_double :: "double \<Rightarrow> real" where
  "real_of_double (Finite m e) = exact m e"
| "real_of_double x = 0"

definition real_center :: "DOMRect \<Rightarrow> real" where
  "real_center rect = real_of_double (rect_left rect) + real_of_double (rect_width rect) / 2"

definition real_distance :: "world \<Rightarrow> ref \<Rightarrow> ref \<Rightarrow> real" where
  "real_distance w c s =
     \<bar>real_center (boundingClientRect (heap w s)) - real_center (boundingClientRect (heap w c))\<bar>"

text \<open>
  A container 1024 wide at \<^verbatim>\<open>left = 0.1\<close> with two sections 1024 wide, at
  \<^verbatim>\<open>left = -511.9\<close> and at \<^verbatim>\<open>left = 512.1\<close> (the doubles these literals denote).
\<close>

definition rounding_heap :: "ref \<Rightarrow> element" where
  "rounding_heap r =
     \<lparr>classList = [],
      boundingClientRect =
        \<lparr>rect_left = (if r = 0 then Finite 3602879701896397 (- 55)
                      else if r = 1 then Finite (- 4502720018068275) (- 43)
                      else Finite 4504479236672717 (- 43)),
         rect_width = Finite 1024 0\<rparr>\<rparr>"

definition rounding_tracker :: world where
  "rounding_tracker = (example_tracker [0, 0])\<lparr>heap := rounding_heap\<rparr>"

text \<open>
  In real arithmetic the first section is the closer one. The script computes the
  distances 512 and 511.9999999999999, selects the second section and marks it.
\<close>

theorem rounded_distance_counterexample:
  "container rounding_tracker = Some 0 \<and> sections rounding_tracker = [1, 2]
   \<and> real_distance rounding_tracker 0 1 < real_distance rounding_tracker 0 2
   \<and> real_of_double (distance rounding_tracker (center (boundingClientRect (heap rounding_tracker 0))) 1)
        = 512
   \<and> real_of_double (distance rounding_tracker (center (boundingClientRect (heap rounding_tracker 0))) 2)
        = 512 - 1 / 2 ^ 43
   \<and> closestSection rounding_tracker (center (boundingClientRect (heap rounding_tracker 0))) = Some 2
   \<and> \<not> isl (checkVisibleSection rounding_tracker)
   \<and> classList_contains 2 IS_VISIBLE (projr (checkVisibleSection rounding_tracker))
   \<and> \<not> classList_contains 1 IS_VISIBLE (projr (checkVisibleSection rounding_tracker))"
proof -
  have c: "container rounding_tracker = Some 0" and s: "sections rounding_tracker = [1, 2]"
    by (simp_all add: rounding_tracker_def example_tracker_def)
  have r: "real_distance rounding_tracker 0 1 < real_distance rounding_tracker 0 2"
    by (simp add: real_distance_def real_center_def rounding_tracker_def rounding_heap_def exact_def)
  have e1: "distance rounding_tracker (center (boundingClientRect (heap rounding_tracker 0))) 1
        = Finite 4503599627370496 (- 43)"
    by code_simp
  have e2: "distance rounding_tracker (center (boundingClientRect (heap rounding_tracker 0))) 2
        = Finite 9007199254740990 (- 44)"
    by code_simp
  have d1: "real_of_double (distance rounding_tracker (center (boundingClientRect (heap rounding_tracker 0))) 1)
        = 512"
    unfolding e1 by (simp add: exact_def)
  have d2: "real_of_double (distance rounding_tracker (center (boundingClientRect (heap rounding_tracker 0))) 2)
        = 512 - 1 / 2 ^ 43"
    unfolding e2 by (simp add: exact_def)
  have cl: "closestSection rounding_tracker (center (boundingClientRect (heap rounding_tracker 0))) = Some 2"
    by code_simp
  note f = checkVisibleSection_selected [OF c cl, THEN conjunct2]
  have v: "classList_contains 2 IS_VISIBLE (projr (checkVisibleSection rounding_tracker))"
    "\<not> classList_contains 1 IS_VISIBLE (projr (checkVisibleSection rounding_tracker))"
    unfolding f by (simp_all add: classList_contains_def s recompute_heap_marker)
  show ?thesis
    using c s r d1 d2 cl v unfolding f by simp
qed


text \<open>
  A container whose left edge is at \<^verbatim>\<open>-Number.MAX_VALUE\<close> and two sections whose
  left edge is at \<^verbatim>\<open>Number.MAX_VALUE\<close>, all of width \<^verbatim>\<open>Number.MAX_VALUE\<close>. The
  first section carries the class.
\<close>

definition overflow_heap :: "ref \<Rightarrow> element" where
  "overflow_heap r =
     \<lparr>classList = (if r = 1 then [IS_VISIBLE] else []),
      boundingClientRect =
        \<lparr>rect_left = (if r = 0 then Finite (- 9007199254740991) 971 else Finite 9007199254740991 971),
         rect_width = Finite 9007199254740991 971\<rparr>\<rparr>"

definition overflow_tracker :: world where
  "overflow_tracker = (example_tracker [0, 0])\<lparr>heap := overflow_heap\<rparr>"

lemma overflow_tracker_distances:
  "container overflow_tracker = Some 0" "sections overflow_tracker = [1, 2]"
  "distance overflow_tracker (center (boundingClientRect (heap overflow_tracker 0))) 1 = PosInfinity"
  "distance overflow_tracker (center (boundingClientRect (heap overflow_tracker 0))) 2 = PosInfinity"
  "\<forall>s\<in>set (sections overflow_tracker).
     \<not> js_lt (distance overflow_tracker (center (boundingClientRect (heap overflow_tracker 0))) s) PosInfinity"
  by code_simp+

text \<open>
  C1, as the code has it. The distances are the ones the script computes in double
  arithmetic, \<open>distance w vc s\<close> for the section \<open>s\<close>, where \<open>vc\<close> is the computed
  centre of the container. When some section's computed distance is below
  \<^verbatim>\<open>Infinity\<close>, the recompute selects a section with such a distance that no
  section's computed distance is below, and the first such in array order: each earlier
  section has a computed distance that is strictly greater, or is NaN or
  \<^verbatim>\<open>Infinity\<close>. The selected section is the value of the scan and carries the marker
  class when \<^verbatim>\<open>checkVisibleSection\<close> returns. When no section's computed distance is
  below \<^verbatim>\<open>Infinity\<close>, no section is selected and none carries the class on return.
\<close>

theorem checkVisibleSection_selects_first_closest:
  assumes "container w = Some c"
  shows "((\<exists>s\<in>set (sections w).
            js_lt (distance w (center (boundingClientRect (heap w c))) s) PosInfinity) \<longrightarrow>
          (\<exists>i w'. i < length (sections w)
             \<and> js_lt (distance w (center (boundingClientRect (heap w c))) (sections w ! i)) PosInfinity
             \<and> (\<forall>j<length (sections w).
                   \<not> js_lt (distance w (center (boundingClientRect (heap w c))) (sections w ! j))
                            (distance w (center (boundingClientRect (heap w c))) (sections w ! i)))
             \<and> (\<forall>j<i. js_lt (distance w (center (boundingClientRect (heap w c))) (sections w ! i))
                              (distance w (center (boundingClientRect (heap w c))) (sections w ! j))
                      \<or> \<not> js_lt (distance w (center (boundingClientRect (heap w c))) (sections w ! j))
                                  PosInfinity)
             \<and> closestSection w (center (boundingClientRect (heap w c))) = Some (sections w ! i)
             \<and> checkVisibleSection w = Inr w'
             \<and> classList_contains (sections w ! i) IS_VISIBLE w'))
     \<and> ((\<forall>s\<in>set (sections w).
            \<not> js_lt (distance w (center (boundingClientRect (heap w c))) s) PosInfinity) \<longrightarrow>
          closestSection w (center (boundingClientRect (heap w c))) = None
          \<and> (\<exists>w'. checkVisibleSection w = Inr w'
                \<and> (\<forall>r\<in>set (sections w). \<not> classList_contains r IS_VISIBLE w')))"
proof -
  define vc where "vc = center (boundingClientRect (heap w c))"
  have a: "\<exists>i w'. i < length (sections w)
             \<and> js_lt (distance w vc (sections w ! i)) PosInfinity
             \<and> (\<forall>j<length (sections w). \<not> js_lt (distance w vc (sections w ! j)) (distance w vc (sections w ! i)))
             \<and> (\<forall>j<i. js_lt (distance w vc (sections w ! i)) (distance w vc (sections w ! j))
                      \<or> \<not> js_lt (distance w vc (sections w ! j)) PosInfinity)
             \<and> closestSection w vc = Some (sections w ! i)
             \<and> checkVisibleSection w = Inr w'
             \<and> classList_contains (sections w ! i) IS_VISIBLE w'"
    if "\<exists>s\<in>set (sections w). js_lt (distance w vc s) PosInfinity"
  proof -
    from that closestSection_some [of _ w vc]
    obtain i where i: "first_minimum (distance w vc) (sections w) i"
      "closestSection w vc = Some (sections w ! i)" by blast
    note f = checkVisibleSection_selected [OF assms, folded vc_def, OF i(2)]
    have "classList_contains (sections w ! i) IS_VISIBLE
      (w\<lparr>heap := recompute_heap (Some (sections w ! i)) (sections w) (heap w),
         calls := calls w @ recompute_calls c (Some (sections w ! i)) (sections w)\<rparr>)"
      using f by (simp add: classList_contains_def recompute_heap_marker)
    with i f show ?thesis
      unfolding first_minimum_def by blast
  qed
  have b: "closestSection w vc = None
          \<and> (\<exists>w'. checkVisibleSection w = Inr w'
                \<and> (\<forall>r\<in>set (sections w). \<not> classList_contains r IS_VISIBLE w'))"
    if "\<forall>s\<in>set (sections w). \<not> js_lt (distance w vc s) PosInfinity"
  proof -
    have n: "closestSection w vc = None"
      using that by (rule closestSection_none)
    note f = checkVisibleSection_unselected [OF assms, folded vc_def, OF n]
    show ?thesis
      unfolding f using n by (simp add: classList_contains_def recompute_heap_no_marker)
  qed
  show ?thesis
    using a b unfolding vc_def by blast
qed

theorem checkVisibleSection_selects_first_closest_witness:
  "container (example_tracker [400, 600]) = Some 0
   \<and> js_lt (distance (example_tracker [400, 600])
              (center (boundingClientRect (heap (example_tracker [400, 600]) 0))) 1) PosInfinity
   \<and> \<not> js_lt (distance (example_tracker [400, 600])
              (center (boundingClientRect (heap (example_tracker [400, 600]) 0))) 1)
            (distance (example_tracker [400, 600])
              (center (boundingClientRect (heap (example_tracker [400, 600]) 0))) 2)
   \<and> \<not> js_lt (distance (example_tracker [400, 600])
              (center (boundingClientRect (heap (example_tracker [400, 600]) 0))) 2)
            (distance (example_tracker [400, 600])
              (center (boundingClientRect (heap (example_tracker [400, 600]) 0))) 1)
   \<and> closestSection (example_tracker [400, 600])
        (center (boundingClientRect (heap (example_tracker [400, 600]) 0))) = Some 1
   \<and> (\<exists>w'. checkVisibleSection (example_tracker [400, 600]) = Inr w'
         \<and> classList_contains 1 IS_VISIBLE w')
   \<and> container overflow_tracker = Some 0
   \<and> closestSection overflow_tracker (center (boundingClientRect (heap overflow_tracker 0))) = None
   \<and> (\<exists>w'. checkVisibleSection overflow_tracker = Inr w'
         \<and> \<not> classList_contains 1 IS_VISIBLE w' \<and> \<not> classList_contains 2 IS_VISIBLE w')"
proof -
  have c: "container (example_tracker [400, 600]) = Some 0"
    and s: "sections (example_tracker [400, 600]) = [1, 2]"
    by (simp_all add: example_tracker_def)
  have d: "js_lt (distance (example_tracker [400, 600])
              (center (boundingClientRect (heap (example_tracker [400, 600]) 0))) 1) PosInfinity"
    "\<not> js_lt (distance (example_tracker [400, 600])
              (center (boundingClientRect (heap (example_tracker [400, 600]) 0))) 1)
            (distance (example_tracker [400, 600])
              (center (boundingClientRect (heap (example_tracker [400, 600]) 0))) 2)"
    "\<not> js_lt (distance (example_tracker [400, 600])
              (center (boundingClientRect (heap (example_tracker [400, 600]) 0))) 2)
            (distance (example_tracker [400, 600])
              (center (boundingClientRect (heap (example_tracker [400, 600]) 0))) 1)"
    by code_simp+
  have cl: "closestSection (example_tracker [400, 600])
        (center (boundingClientRect (heap (example_tracker [400, 600]) 0))) = Some 1"
    by code_simp
  have h: "\<exists>s\<in>set (sections (example_tracker [400, 600])).
            js_lt (distance (example_tracker [400, 600])
              (center (boundingClientRect (heap (example_tracker [400, 600]) 0))) s) PosInfinity"
    using d(1) by (simp add: s)
  from checkVisibleSection_selects_first_closest [OF c, THEN conjunct1, THEN mp, OF h]
  obtain i w' where i: "closestSection (example_tracker [400, 600])
        (center (boundingClientRect (heap (example_tracker [400, 600]) 0))) = Some (sections (example_tracker [400, 600]) ! i)"
    "checkVisibleSection (example_tracker [400, 600]) = Inr w'"
    "classList_contains (sections (example_tracker [400, 600]) ! i) IS_VISIBLE w'"
    by blast
  have 1: "\<exists>w'. checkVisibleSection (example_tracker [400, 600]) = Inr w'
         \<and> classList_contains 1 IS_VISIBLE w'"
    using i cl by auto
  note o = overflow_tracker_distances
  note g = o(5)
  from checkVisibleSection_selects_first_closest [OF o(1), THEN conjunct2, THEN mp, OF g]
  have 2: "closestSection overflow_tracker (center (boundingClientRect (heap overflow_tracker 0))) = None
     \<and> (\<exists>w'. checkVisibleSection overflow_tracker = Inr w'
         \<and> \<not> classList_contains 1 IS_VISIBLE w' \<and> \<not> classList_contains 2 IS_VISIBLE w')"
    by (simp add: o)
  show ?thesis
    using c d cl 1 o(1) 2 by blast
qed

section \<open>The marker after a recompute\<close>

lemma filter_eq_notin: "x \<notin> set xs \<Longrightarrow> filter (\<lambda>r. r = x) xs = []"
  by (induction xs) auto

lemma length_filter_eq_distinct:
  "distinct xs \<Longrightarrow> x \<in> set xs \<Longrightarrow> length (filter (\<lambda>r. r = x) xs) = 1"
  by (induction xs) (auto simp: filter_eq_notin)

text \<open>
  Finite rectangles whose computed distances are all \<^verbatim>\<open>Infinity\<close>: no distance is
  below the initial \<^verbatim>\<open>minDistance\<close>, \<^verbatim>\<open>closestSection\<close> stays \<^verbatim>\<open>null\<close>, the
  second loop strips the class from both sections (the first carried it) and line 146
  skips the rest. No section carries the class afterwards.
\<close>

theorem no_section_visible_counterexample:
  "container overflow_tracker = Some 0 \<and> sections overflow_tracker = [1, 2]
   \<and> classList_contains 1 IS_VISIBLE overflow_tracker
   \<and> \<not> isl (checkVisibleSection overflow_tracker)
   \<and> \<not> classList_contains 1 IS_VISIBLE (projr (checkVisibleSection overflow_tracker))
   \<and> \<not> classList_contains 2 IS_VISIBLE (projr (checkVisibleSection overflow_tracker))
   \<and> visibleSections (getState (projr (checkVisibleSection overflow_tracker))) = 0"
proof -
  note o = overflow_tracker_distances
  have n: "closestSection overflow_tracker (center (boundingClientRect (heap overflow_tracker 0))) = None"
    using o(5) by (rule closestSection_none)
  note f = checkVisibleSection_unselected [OF o(1) n]
  have v: "classList_contains 1 IS_VISIBLE overflow_tracker"
    by (simp add: classList_contains_def overflow_tracker_def overflow_heap_def)
  show ?thesis
    unfolding f using v
    by (simp add: o(1,2) getState_def classList_contains_def recompute_heap_no_marker)
qed

text \<open>
  C2, as the code has it. With a container, one run of \<^verbatim>\<open>checkVisibleSection\<close>
  returns. When some section's computed distance is below \<^verbatim>\<open>Infinity\<close>, exactly one
  section carries \<^verbatim>\<open>is-visible\<close> on return: some section \<open>s\<close> of the list does, and
  a section of the list carries it only if it is \<open>s\<close>, whatever the class lists were
  before; when the list has no repeated element (as a \<^verbatim>\<open>querySelectorAll\<close> result has
  none), the count that \<^verbatim>\<open>getState\<close> reports is 1. When no section's computed
  distance is below \<^verbatim>\<open>Infinity\<close> (each is NaN or \<^verbatim>\<open>Infinity\<close>, or there is no
  section), no section carries the class on return and the count is 0.
\<close>

theorem checkVisibleSection_exactly_one_visible:
  assumes "container w = Some c"
  shows "\<exists>w'. checkVisibleSection w = Inr w' \<and> sections w' = sections w
     \<and> ((\<exists>s\<in>set (sections w).
            js_lt (distance w (center (boundingClientRect (heap w c))) s) PosInfinity) \<longrightarrow>
          (\<exists>s. s \<in> set (sections w')
             \<and> (\<forall>r\<in>set (sections w'). classList_contains r IS_VISIBLE w' \<longleftrightarrow> r = s))
          \<and> (distinct (sections w) \<longrightarrow> visibleSections (getState w') = 1))
     \<and> ((\<forall>s\<in>set (sections w).
            \<not> js_lt (distance w (center (boundingClientRect (heap w c))) s) PosInfinity) \<longrightarrow>
          (\<forall>r\<in>set (sections w'). \<not> classList_contains r IS_VISIBLE w')
          \<and> visibleSections (getState w') = 0)"
proof (cases "closestSection w (center (boundingClientRect (heap w c)))")
  case None
  define w' where "w' = w\<lparr>heap := recompute_heap None (sections w) (heap w),
               calls := calls w @ recompute_calls c None (sections w)\<rparr>"
  have r: "checkVisibleSection w = Inr w'"
    unfolding w'_def by (rule checkVisibleSection_unselected [OF assms None])
  have sec: "sections w' = sections w" by (simp add: w'_def)
  have no: "\<not> js_lt (distance w (center (boundingClientRect (heap w c))) s) PosInfinity"
    if "s \<in> set (sections w)" for s
    using closestSection_some [OF that, of "center (boundingClientRect (heap w c))"] None by auto
  have z: "\<not> classList_contains r IS_VISIBLE w'" if "r \<in> set (sections w)" for r
    using that by (simp add: w'_def classList_contains_def recompute_heap_no_marker)
  then have "filter (\<lambda>r. classList_contains r IS_VISIBLE w') (sections w) = []"
    by (simp add: filter_empty_conv)
  then have "visibleSections (getState w') = 0"
    by (simp add: getState_def sec)
  then show ?thesis
    using r sec no z by auto
next
  case (Some s)
  note f = checkVisibleSection_selected [OF assms Some]
  define w' where "w' = w\<lparr>heap := recompute_heap (Some s) (sections w) (heap w),
               calls := calls w @ recompute_calls c (Some s) (sections w)\<rparr>"
  have r: "checkVisibleSection w = Inr w'"
    unfolding w'_def using f by simp
  have s: "s \<in> set (sections w)" using f by simp
  have sec: "sections w' = sections w" by (simp add: w'_def)
  have sel: "\<exists>s\<in>set (sections w). js_lt (distance w (center (boundingClientRect (heap w c))) s) PosInfinity"
    using closestSection_none [of w "center (boundingClientRect (heap w c))"] Some by auto
  have one: "classList_contains r IS_VISIBLE w' \<longleftrightarrow> r = s" if "r \<in> set (sections w)" for r
    using that by (simp add: w'_def classList_contains_def recompute_heap_marker)
  have "filter (\<lambda>r. classList_contains r IS_VISIBLE w') (sections w) = filter (\<lambda>r. r = s) (sections w)"
    by (rule filter_cong) (simp_all add: one)
  then have "visibleSections (getState w') = 1" if "distinct (sections w)"
    using that s by (simp add: getState_def sec length_filter_eq_distinct)
  then show ?thesis
    using r s sec one sel by auto
qed

theorem checkVisibleSection_exactly_one_visible_witness:
  "container (example_tracker [100, 520, 900]) = Some 0
   \<and> js_lt (distance (example_tracker [100, 520, 900])
              (center (boundingClientRect (heap (example_tracker [100, 520, 900]) 0))) 1) PosInfinity
   \<and> distinct (sections (example_tracker [100, 520, 900]))
   \<and> (\<exists>w'. checkVisibleSection (example_tracker [100, 520, 900]) = Inr w'
        \<and> visibleSections (getState w') = 1)
   \<and> container overflow_tracker = Some 0
   \<and> (\<exists>w'. checkVisibleSection overflow_tracker = Inr w'
        \<and> visibleSections (getState w') = 0)"
proof -
  have c: "container (example_tracker [100, 520, 900]) = Some 0"
    and s: "sections (example_tracker [100, 520, 900]) = [1, 2, 3]"
    by (simp_all add: example_tracker_def)
  have d: "js_lt (distance (example_tracker [100, 520, 900])
              (center (boundingClientRect (heap (example_tracker [100, 520, 900]) 0))) 1) PosInfinity"
    by code_simp
  have di: "distinct (sections (example_tracker [100, 520, 900]))"
    by (simp add: s)
  have h: "\<exists>s\<in>set (sections (example_tracker [100, 520, 900])).
            js_lt (distance (example_tracker [100, 520, 900])
              (center (boundingClientRect (heap (example_tracker [100, 520, 900]) 0))) s) PosInfinity"
    using d by (simp add: s)
  have 1: "\<exists>w'. checkVisibleSection (example_tracker [100, 520, 900]) = Inr w'
        \<and> visibleSections (getState w') = 1"
    using checkVisibleSection_exactly_one_visible [OF c] h di by blast
  note o = overflow_tracker_distances
  have 2: "\<exists>w'. checkVisibleSection overflow_tracker = Inr w'
        \<and> visibleSections (getState w') = 0"
    using checkVisibleSection_exactly_one_visible [OF o(1)] o(5) by blast
  show ?thesis
    using c d di 1 o(1) 2 by blast
qed

section \<open>The calls of a recompute\<close>

lemma closest_loop_geometry:
  "(\<And>r. boundingClientRect (heap v r) = boundingClientRect (heap w r)) \<Longrightarrow>
     closest_loop v vc ss st = closest_loop w vc ss st"
  by (induction w vc ss st rule: closest_loop.induct) (simp_all add: distance_def)

lemma closestSection_geometry:
  assumes "\<And>r. boundingClientRect (heap v r) = boundingClientRect (heap w r)"
    and "sections v = sections w"
  shows "closestSection v vc = closestSection w vc"
  using closest_loop_geometry [of v w, OF assms(1)] assms(2) by (simp add: closestSection_def)

lemma recompute_heap_geometry:
  "boundingClientRect (recompute_heap closest ss h r) = boundingClientRect (h r)"
  by (simp add: recompute_heap_def mark_def unmark_def)

lemma retrigger_contains: "classList_contains s IS_VISIBLE (retrigger s w)"
  by (simp add: retrigger_frame classList_contains_def marker_in_mark)

lemma classList_remove_contains: "\<not> classList_contains s IS_VISIBLE (classList_remove s IS_VISIBLE w)"
  by (simp add: classList_remove_frame classList_contains_def marker_notin_unmark)

lemma offsetWidth_contains:
  "classList_contains s IS_VISIBLE (offsetWidth r w) = classList_contains s IS_VISIBLE w"
  by (simp add: offsetWidth_frame classList_contains_def)

text \<open>
  One recompute that selects \<open>s\<close>, split at the state \<open>w0\<close> that the second loop
  leaves: the rest is the remove, the read and the add on \<open>s\<close>.
\<close>

lemma recompute_cycle:
  assumes "container w = Some c"
    and "closestSection w (center (boundingClientRect (heap w c))) = Some s"
  shows "\<exists>w0. checkVisibleSection w
        = Inr (classList_add s IS_VISIBLE (offsetWidth s (classList_remove s IS_VISIBLE w0)))
     \<and> heap w0 s = heap w s
     \<and> calls (classList_add s IS_VISIBLE (offsetWidth s (classList_remove s IS_VISIBLE w0)))
        = calls w
          @ GetBoundingClientRect c # map GetBoundingClientRect (sections w)
          @ map (\<lambda>r. ClassListRemove r IS_VISIBLE) (filter (\<lambda>r. r \<noteq> s) (sections w))
          @ [ClassListRemove s IS_VISIBLE, OffsetWidth s, ClassListAdd s IS_VISIBLE]
     \<and> sections (classList_add s IS_VISIBLE (offsetWidth s (classList_remove s IS_VISIBLE w0))) = sections w
     \<and> container (classList_add s IS_VISIBLE (offsetWidth s (classList_remove s IS_VISIBLE w0))) = Some c
     \<and> (\<forall>r. boundingClientRect
               (heap (classList_add s IS_VISIBLE (offsetWidth s (classList_remove s IS_VISIBLE w0))) r)
             = boundingClientRect (heap w r))"
proof -
  define w0 where "w0 = reset_loop (Some s) (sections w)
      (w\<lparr>calls := calls w @ GetBoundingClientRect c # map GetBoundingClientRect (sections w)\<rparr>)"
  have u: "checkVisibleSection w = Inr (retrigger s w0)"
    using assms(2) by (simp add: checkVisibleSection_unfold [OF assms(1)] w0_def)
  have h: "heap w0 s = heap w s"
    by (simp add: w0_def reset_loop_frame reset_heap_def)
  note f = checkVisibleSection_selected [OF assms, THEN conjunct2]
  have e: "retrigger s w0 = w\<lparr>heap := recompute_heap (Some s) (sections w) (heap w),
               calls := calls w @ recompute_calls c (Some s) (sections w)\<rparr>"
    using u f by simp
  have k: "calls (retrigger s w0) = calls w
          @ GetBoundingClientRect c # map GetBoundingClientRect (sections w)
          @ map (\<lambda>r. ClassListRemove r IS_VISIBLE) (filter (\<lambda>r. r \<noteq> s) (sections w))
          @ [ClassListRemove s IS_VISIBLE, OffsetWidth s, ClassListAdd s IS_VISIBLE]"
    unfolding e by (simp add: recompute_calls_def retrigger_calls_def)
  have o: "sections (retrigger s w0) = sections w" "container (retrigger s w0) = Some c"
    "\<forall>r. boundingClientRect (heap (retrigger s w0) r) = boundingClientRect (heap w r)"
    unfolding e using assms(1) by (simp_all add: recompute_heap_geometry)
  show ?thesis
    using u h k o unfolding retrigger_def by blast
qed

text \<open>
  C3. Every recompute that selects a section \<open>s\<close> ends with
  \<^verbatim>\<open>classList.remove('is-visible')\<close>, the read of \<^verbatim>\<open>offsetWidth\<close> and
  \<^verbatim>\<open>classList.add('is-visible')\<close> on \<open>s\<close>, in this order: it returns the state that
  these three make of the state \<open>w0\<close> left by the second loop, in which \<open>s\<close> has the
  classes it had before the call. After the remove, and so at the read, \<open>s\<close> does not
  carry the class; after the add it does. A second recompute on the state returned (the
  geometry is unchanged) selects \<open>s\<close> again, finds the class on it (\<open>v0\<close> is the state
  its second loop leaves), and goes through the same cycle: absent after the remove and at
  the read, present after the add. The calls of each recompute are the reads of the
  container's and every section's rectangle, the removes on the other sections, and the
  three calls on \<open>s\<close>.
\<close>

theorem checkVisibleSection_retriggers_every_call:
  assumes "container w = Some c"
    and "closestSection w (center (boundingClientRect (heap w c))) = Some s"
  shows "\<exists>w0 w1 v0 w2.
       checkVisibleSection w = Inr w1
     \<and> w1 = classList_add s IS_VISIBLE (offsetWidth s (classList_remove s IS_VISIBLE w0))
     \<and> classList (heap w0 s) = classList (heap w s)
     \<and> \<not> classList_contains s IS_VISIBLE (classList_remove s IS_VISIBLE w0)
     \<and> \<not> classList_contains s IS_VISIBLE (offsetWidth s (classList_remove s IS_VISIBLE w0))
     \<and> classList_contains s IS_VISIBLE w1
     \<and> calls w1 = calls w
          @ GetBoundingClientRect c # map GetBoundingClientRect (sections w)
          @ map (\<lambda>r. ClassListRemove r IS_VISIBLE) (filter (\<lambda>r. r \<noteq> s) (sections w))
          @ [ClassListRemove s IS_VISIBLE, OffsetWidth s, ClassListAdd s IS_VISIBLE]
     \<and> closestSection w1 (center (boundingClientRect (heap w1 c))) = Some s
     \<and> checkVisibleSection w1 = Inr w2
     \<and> w2 = classList_add s IS_VISIBLE (offsetWidth s (classList_remove s IS_VISIBLE v0))
     \<and> classList_contains s IS_VISIBLE v0
     \<and> \<not> classList_contains s IS_VISIBLE (classList_remove s IS_VISIBLE v0)
     \<and> \<not> classList_contains s IS_VISIBLE (offsetWidth s (classList_remove s IS_VISIBLE v0))
     \<and> classList_contains s IS_VISIBLE w2
     \<and> calls w2 = calls w1
          @ GetBoundingClientRect c # map GetBoundingClientRect (sections w)
          @ map (\<lambda>r. ClassListRemove r IS_VISIBLE) (filter (\<lambda>r. r \<noteq> s) (sections w))
          @ [ClassListRemove s IS_VISIBLE, OffsetWidth s, ClassListAdd s IS_VISIBLE]"
proof -
  from recompute_cycle [OF assms] obtain w0 where w0:
    "checkVisibleSection w
        = Inr (classList_add s IS_VISIBLE (offsetWidth s (classList_remove s IS_VISIBLE w0)))"
    "heap w0 s = heap w s"
    "calls (classList_add s IS_VISIBLE (offsetWidth s (classList_remove s IS_VISIBLE w0)))
        = calls w
          @ GetBoundingClientRect c # map GetBoundingClientRect (sections w)
          @ map (\<lambda>r. ClassListRemove r IS_VISIBLE) (filter (\<lambda>r. r \<noteq> s) (sections w))
          @ [ClassListRemove s IS_VISIBLE, OffsetWidth s, ClassListAdd s IS_VISIBLE]"
    "sections (classList_add s IS_VISIBLE (offsetWidth s (classList_remove s IS_VISIBLE w0))) = sections w"
    "container (classList_add s IS_VISIBLE (offsetWidth s (classList_remove s IS_VISIBLE w0))) = Some c"
    "\<forall>r. boundingClientRect
               (heap (classList_add s IS_VISIBLE (offsetWidth s (classList_remove s IS_VISIBLE w0))) r)
             = boundingClientRect (heap w r)"
    by blast
  define w1 where "w1 = classList_add s IS_VISIBLE (offsetWidth s (classList_remove s IS_VISIBLE w0))"
  note a = w0 [folded w1_def]
  have p1: "classList_contains s IS_VISIBLE w1"
    unfolding w1_def using retrigger_contains [of s w0] by (simp add: retrigger_def)
  have g: "boundingClientRect (heap w1 r) = boundingClientRect (heap w r)" for r
    using a(6) by blast
  have cl1: "closestSection w1 (center (boundingClientRect (heap w1 c))) = Some s"
    using closestSection_geometry [of w1 w, OF g a(4)] assms(2) by (simp add: g)
  from recompute_cycle [OF a(5) cl1] obtain v0 where v0:
    "checkVisibleSection w1
        = Inr (classList_add s IS_VISIBLE (offsetWidth s (classList_remove s IS_VISIBLE v0)))"
    "heap v0 s = heap w1 s"
    "calls (classList_add s IS_VISIBLE (offsetWidth s (classList_remove s IS_VISIBLE v0)))
        = calls w1
          @ GetBoundingClientRect c # map GetBoundingClientRect (sections w1)
          @ map (\<lambda>r. ClassListRemove r IS_VISIBLE) (filter (\<lambda>r. r \<noteq> s) (sections w1))
          @ [ClassListRemove s IS_VISIBLE, OffsetWidth s, ClassListAdd s IS_VISIBLE]"
    by blast
  define w2 where "w2 = classList_add s IS_VISIBLE (offsetWidth s (classList_remove s IS_VISIBLE v0))"
  note b = v0 [folded w2_def, unfolded a(4)]
  have q0: "classList_contains s IS_VISIBLE v0"
    using p1 by (simp add: classList_contains_def b(2))
  have p2: "classList_contains s IS_VISIBLE w2"
    unfolding w2_def using retrigger_contains [of s v0] by (simp add: retrigger_def)
  have n: "\<not> classList_contains s IS_VISIBLE (classList_remove s IS_VISIBLE x)"
    "\<not> classList_contains s IS_VISIBLE (offsetWidth s (classList_remove s IS_VISIBLE x))" for x
    by (simp_all add: offsetWidth_contains classList_remove_contains)
  have h0: "classList (heap w0 s) = classList (heap w s)"
    by (simp add: a(2))
  show ?thesis
    using a(1) w1_def h0 n [of w0] p1 a(3) cl1 b(1) w2_def q0 n [of v0] p2 b(3)
    by blast
qed


theorem checkVisibleSection_retriggers_every_call_witness:
  "container (example_tracker [100, 520, 900]) = Some 0
   \<and> closestSection (example_tracker [100, 520, 900])
        (center (boundingClientRect (heap (example_tracker [100, 520, 900]) 0))) = Some 2
   \<and> (\<exists>w0 w1 v0 w2.
         checkVisibleSection (example_tracker [100, 520, 900]) = Inr w1
       \<and> w1 = classList_add 2 IS_VISIBLE (offsetWidth 2 (classList_remove 2 IS_VISIBLE w0))
       \<and> \<not> classList_contains 2 IS_VISIBLE (offsetWidth 2 (classList_remove 2 IS_VISIBLE w0))
       \<and> calls w1 =
          [GetBoundingClientRect 0, GetBoundingClientRect 1, GetBoundingClientRect 2,
           GetBoundingClientRect 3, ClassListRemove 1 IS_VISIBLE, ClassListRemove 3 IS_VISIBLE,
           ClassListRemove 2 IS_VISIBLE, OffsetWidth 2, ClassListAdd 2 IS_VISIBLE]
       \<and> checkVisibleSection w1 = Inr w2
       \<and> w2 = classList_add 2 IS_VISIBLE (offsetWidth 2 (classList_remove 2 IS_VISIBLE v0))
       \<and> classList_contains 2 IS_VISIBLE v0
       \<and> \<not> classList_contains 2 IS_VISIBLE (offsetWidth 2 (classList_remove 2 IS_VISIBLE v0))
       \<and> classList_contains 2 IS_VISIBLE w2
       \<and> calls w2 = calls w1 @
          [GetBoundingClientRect 0, GetBoundingClientRect 1, GetBoundingClientRect 2,
           GetBoundingClientRect 3, ClassListRemove 1 IS_VISIBLE, ClassListRemove 3 IS_VISIBLE,
           ClassListRemove 2 IS_VISIBLE, OffsetWidth 2, ClassListAdd 2 IS_VISIBLE])"
proof -
  have c: "container (example_tracker [100, 520, 900]) = Some 0"
    by (simp add: example_tracker_def)
  have ss: "sections (example_tracker [100, 520, 900]) = [1, 2, 3]"
    by (simp add: example_tracker_def)
  have k: "calls (example_tracker [100, 520, 900]) = []"
    by (simp add: example_tracker_def example_page_def)
  have cl: "closestSection (example_tracker [100, 520, 900])
        (center (boundingClientRect (heap (example_tracker [100, 520, 900]) 0))) = Some 2"
    by code_simp
  from checkVisibleSection_retriggers_every_call [OF c cl] have
    "\<exists>w0 w1 v0 w2.
         checkVisibleSection (example_tracker [100, 520, 900]) = Inr w1
       \<and> w1 = classList_add 2 IS_VISIBLE (offsetWidth 2 (classList_remove 2 IS_VISIBLE w0))
       \<and> \<not> classList_contains 2 IS_VISIBLE (offsetWidth 2 (classList_remove 2 IS_VISIBLE w0))
       \<and> calls w1 =
          [GetBoundingClientRect 0, GetBoundingClientRect 1, GetBoundingClientRect 2,
           GetBoundingClientRect 3, ClassListRemove 1 IS_VISIBLE, ClassListRemove 3 IS_VISIBLE,
           ClassListRemove 2 IS_VISIBLE, OffsetWidth 2, ClassListAdd 2 IS_VISIBLE]
       \<and> checkVisibleSection w1 = Inr w2
       \<and> w2 = classList_add 2 IS_VISIBLE (offsetWidth 2 (classList_remove 2 IS_VISIBLE v0))
       \<and> classList_contains 2 IS_VISIBLE v0
       \<and> \<not> classList_contains 2 IS_VISIBLE (offsetWidth 2 (classList_remove 2 IS_VISIBLE v0))
       \<and> classList_contains 2 IS_VISIBLE w2
       \<and> calls w2 = calls w1 @
          [GetBoundingClientRect 0, GetBoundingClientRect 1, GetBoundingClientRect 2,
           GetBoundingClientRect 3, ClassListRemove 1 IS_VISIBLE, ClassListRemove 3 IS_VISIBLE,
           ClassListRemove 2 IS_VISIBLE, OffsetWidth 2, ClassListAdd 2 IS_VISIBLE]"
    unfolding ss k by (elim exE) (rule exI conjI | simp)+
  then show ?thesis
    using c cl by blast
qed

section \<open>What init does\<close>

lemma observe_all_frame:
  "foldl (\<lambda>v s. observe s v) w ss
     = w\<lparr>observed := observed w @ ss, calls := calls w @ map Observe ss\<rparr>"
  by (induction ss arbitrary: w) (simp_all add: observe_def called_def)

definition observer_listeners :: "ref \<Rightarrow> (target \<times> event_type \<times> handler) list" where
  "observer_listeners c = [(Element c, Scroll, ObserverScroll), (Element c, TouchEnd, ObserverTouchEnd)]"

definition fallback_listeners :: "ref \<Rightarrow> (target \<times> event_type \<times> handler) list" where
  "fallback_listeners c = [(Element c, Scroll, HandleScroll), (Window, Resize, HandleScroll)]"

definition register_calls :: "(target \<times> event_type \<times> handler) list \<Rightarrow> call list" where
  "register_calls ls = map (\<lambda>(t, ev, h). AddEventListener t ev h) ls"

lemma setupIntersectionObserver_frame:
  assumes "container w = Some c"
  shows "setupIntersectionObserver w =
     Inr (w\<lparr>listeners := listeners w @ observer_listeners c,
           observed := observed w @ sections w,
           calls := calls w @ NewIntersectionObserver # map Observe (sections w)
                    @ register_calls (observer_listeners c)\<rparr>)"
proof -
  have "foldl (\<lambda>v s. observe s v) (called NewIntersectionObserver w) (sections (called NewIntersectionObserver w))
      = w\<lparr>observed := observed w @ sections w,
          calls := calls w @ NewIntersectionObserver # map Observe (sections w)\<rparr>"
    unfolding observe_all_frame by (simp add: called_def)
  then show ?thesis
    using assms
    by (simp add: setupIntersectionObserver_def Let_def addEventListener_def called_def
        observer_listeners_def register_calls_def)
qed

lemma setupScrollFallback_unfold:
  assumes "container w = Some c"
  shows "setupScrollFallback w =
     checkVisibleSection (w\<lparr>listeners := listeners w @ fallback_listeners c,
           calls := calls w @ register_calls (fallback_listeners c)\<rparr>)"
  using assms
  by (simp add: setupScrollFallback_def addEventListener_def global_addEventListener_def called_def
      fallback_listeners_def register_calls_def)

lemma setTimeout_frame:
  "snd (setTimeout cb delay w) =
     w\<lparr>timers := timers w @ [\<lparr>timer_id = next_timer w, due = now w + delay, callback = cb\<rparr>],
       next_timer := Suc (next_timer w), calls := calls w @ [SetTimeout cb delay]\<rparr>"
  "fst (setTimeout cb delay w) = next_timer w"
  by (simp_all add: setTimeout_def called_def)

lemma init_initialized: "isInitialized w \<Longrightarrow> init w = Inr w"
  by (simp add: init_def)

definition queried :: "world \<Rightarrow> world" where
  "queried w = w\<lparr>calls := calls w @ [QuerySelector ''.snap-container'', QuerySelectorAll ''section.snap-page''],
      container := snap_container w, sections := snap_pages w\<rparr>"

lemma init_unfold:
  assumes "\<not> isInitialized w"
  shows "init w =
     (if snap_container w = None \<or> snap_pages w = []
      then Inr (console_warn ''Animation system: container or sections not found'' (queried w))
      else case (if hasIntersectionObserver w then setupIntersectionObserver (queried w)
                 else setupScrollFallback (queried w)) of
             Inl e \<Rightarrow> Inl e
           | Inr w3 \<Rightarrow> Inr ((snd (setTimeout MarkFirstSection 50 w3))\<lparr>isInitialized := True\<rparr>))"
proof -
  have q: "called (QuerySelectorAll ''section.snap-page'')
        (called (QuerySelector ''.snap-container'') (w\<lparr>container := snap_container w\<rparr>)
          \<lparr>sections := snap_pages (called (QuerySelector ''.snap-container'') (w\<lparr>container := snap_container w\<rparr>))\<rparr>)
      = queried w"
    by (simp add: called_def queried_def)
  have p: "container (queried w) = snap_container w" "sections (queried w) = snap_pages w"
    "hasIntersectionObserver (queried w) = hasIntersectionObserver w"
    by (simp_all add: queried_def)
  show ?thesis
    using assms unfolding init_def Let_def q p by simp
qed

lemma checkVisibleSection_returns:
  "\<exists>w'. checkVisibleSection w = Inr w' \<and> timers w' = timers w \<and> next_timer w' = next_timer w
     \<and> now w' = now w \<and> sections w' = sections w \<and> container w' = container w
     \<and> isInitialized w' = isInitialized w \<and> scrollTimer w' = scrollTimer w
     \<and> listeners w' = listeners w \<and> observed w' = observed w
     \<and> snap_container w' = snap_container w \<and> snap_pages w' = snap_pages w
     \<and> hasIntersectionObserver w' = hasIntersectionObserver w"
proof (cases "container w")
  case None
  then show ?thesis by (simp add: checkVisibleSection_def)
next
  case (Some c)
  show ?thesis unfolding checkVisibleSection_frame [OF Some] by simp
qed

lemma setup_returns:
  assumes "container w = Some c"
  shows "\<exists>w3. (if hasIntersectionObserver w then setupIntersectionObserver w else setupScrollFallback w) = Inr w3
     \<and> timers w3 = timers w \<and> next_timer w3 = next_timer w \<and> now w3 = now w
     \<and> sections w3 = sections w \<and> container w3 = container w \<and> scrollTimer w3 = scrollTimer w"
proof (cases "hasIntersectionObserver w")
  case True
  then show ?thesis by (simp add: setupIntersectionObserver_frame [OF assms])
next
  case False
  from checkVisibleSection_returns
    [of "w\<lparr>listeners := listeners w @ fallback_listeners c,
           calls := calls w @ register_calls (fallback_listeners c)\<rparr>"]
  show ?thesis using False by (auto simp: setupScrollFallback_unfold [OF assms])
qed

lemma init_success:
  assumes "\<not> isInitialized w" "snap_container w = Some c" "snap_pages w \<noteq> []"
  shows "\<exists>w'. init w = Inr w' \<and> isInitialized w' \<and> container w' = Some c \<and> sections w' = snap_pages w
     \<and> timers w' = timers w @ [\<lparr>timer_id = next_timer w, due = now w + 50, callback = MarkFirstSection\<rparr>]
     \<and> next_timer w' = Suc (next_timer w) \<and> now w' = now w \<and> scrollTimer w' = scrollTimer w"
proof -
  have q: "container (queried w) = Some c" "sections (queried w) = snap_pages w"
    "timers (queried w) = timers w" "next_timer (queried w) = next_timer w" "now (queried w) = now w"
    "scrollTimer (queried w) = scrollTimer w" "hasIntersectionObserver (queried w) = hasIntersectionObserver w"
    using assms(2) by (simp_all add: queried_def)
  from setup_returns [OF q(1)] obtain w3 where w3:
    "(if hasIntersectionObserver w then setupIntersectionObserver (queried w) else setupScrollFallback (queried w)) = Inr w3"
    "timers w3 = timers w" "next_timer w3 = next_timer w" "now w3 = now w"
    "sections w3 = snap_pages w" "container w3 = Some c" "scrollTimer w3 = scrollTimer w"
    unfolding q by blast
  have "init w = Inr ((snd (setTimeout MarkFirstSection 50 w3))\<lparr>isInitialized := True\<rparr>)"
    using assms w3(1) by (simp add: init_unfold)
  then show ?thesis
    using w3 by (simp add: setTimeout_frame)
qed

lemma init_warns:
  assumes "\<not> isInitialized w" and "snap_container w = None \<or> snap_pages w = []"
  shows "init w =
     Inr (w\<lparr>calls := calls w @ [QuerySelector ''.snap-container'', QuerySelectorAll ''section.snap-page'',
                ConsoleWarn ''Animation system: container or sections not found''],
           container := snap_container w, sections := snap_pages w\<rparr>)"
  using assms by (auto simp: init_unfold console_warn_def called_def queried_def)

section \<open>The recompute before initialization\<close>

text \<open>
  C10. While the container reference is \<^verbatim>\<open>null\<close> (no \<^verbatim>\<open>init\<close> has found a
  container yet), \<^verbatim>\<open>checkVisibleSection\<close> returns at its first line: it does not throw,
  and the state it returns is the state it was given, so no class list is touched and no
  browser call is made. The same holds when it runs as the timer callback that the load
  listener schedules.
\<close>

theorem checkVisibleSection_without_container:
  assumes "container w = None"
  shows "checkVisibleSection w = Inr w \<and> run_callback CheckVisibleSection w = Inr w"
  using assms by (simp add: checkVisibleSection_def)

theorem checkVisibleSection_without_container_witness:
  "container (example_page [100, 520, 900]) = None
   \<and> checkVisibleSection (example_page [100, 520, 900]) = Inr (example_page [100, 520, 900])
   \<and> run_callback CheckVisibleSection (example_page [100, 520, 900]) = Inr (example_page [100, 520, 900])"
proof -
  have c: "container (example_page [100, 520, 900]) = None"
    by (simp add: example_page_def)
  show ?thesis
    using c checkVisibleSection_without_container [OF c] by simp
qed

section \<open>Initialization\<close>

text \<open>
  C5. On a page that has a container and at least one section, \<^verbatim>\<open>init\<close> returns with
  the initialized flag set, and a second call returns the state unchanged: the flag, the
  container reference and the section list are as they were, the listener list, the
  observed elements and the pending timers have gained nothing, and the call record has
  no new query or registration. The same holds when the second call comes from the load
  listener's timer or from the DOMContentLoaded listener.
\<close>

theorem init_twice:
  assumes "snap_container w \<noteq> None" and "snap_pages w \<noteq> []"
  shows "\<exists>w'. init w = Inr w' \<and> isInitialized w' \<and> init w' = Inr w'
     \<and> run_callback Init w' = Inr w' \<and> run_handler InitListener w' = Inr w'"
proof (cases "isInitialized w")
  case True
  then show ?thesis by (simp add: init_initialized)
next
  case False
  from assms(1) obtain c where c: "snap_container w = Some c" by auto
  from init_success [OF False c assms(2)] obtain w' where "init w = Inr w'" "isInitialized w'"
    by blast
  then show ?thesis by (simp add: init_initialized)
qed

theorem init_twice_witness:
  "snap_container (example_page [100, 520, 900]) \<noteq> None
   \<and> snap_pages (example_page [100, 520, 900]) \<noteq> []
   \<and> (\<exists>w'. init (example_page [100, 520, 900]) = Inr w' \<and> isInitialized w' \<and> init w' = Inr w'
         \<and> run_callback Init w' = Inr w' \<and> run_handler InitListener w' = Inr w')"
proof -
  have c: "snap_container (example_page [100, 520, 900]) \<noteq> None"
    by (simp add: example_page_def)
  have s: "snap_pages (example_page [100, 520, 900]) \<noteq> []"
    by (simp add: example_page_def)
  show ?thesis
    using c s init_twice [OF c s] by simp
qed

text \<open>
  C6. When the document has no container, or no section, an uninitialized \<^verbatim>\<open>init\<close>
  returns without throwing. It has made three calls (the two queries and one
  \<^verbatim>\<open>console.warn\<close>) and stored what the queries found; the listeners, observed
  elements, timers and the store of elements are untouched and the initialized flag is
  still unset. So a later \<^verbatim>\<open>init\<close>, on a document that by then has a container and
  sections, initializes.
\<close>

theorem init_missing_dom:
  assumes "\<not> isInitialized w" and "snap_container w = None \<or> snap_pages w = []"
  shows "\<exists>w'. init w = Inr w'
     \<and> w' = w\<lparr>calls := calls w @ [QuerySelector ''.snap-container'', QuerySelectorAll ''section.snap-page'',
                ConsoleWarn ''Animation system: container or sections not found''],
              container := snap_container w, sections := snap_pages w\<rparr>
     \<and> \<not> isInitialized w' \<and> listeners w' = listeners w \<and> observed w' = observed w
     \<and> timers w' = timers w \<and> heap w' = heap w
     \<and> (\<forall>c ps. ps \<noteq> [] \<longrightarrow>
          (\<exists>w2. init (w'\<lparr>snap_container := Some c, snap_pages := ps\<rparr>) = Inr w2
             \<and> isInitialized w2 \<and> container w2 = Some c \<and> sections w2 = ps))"
proof -
  define w' where "w' = w\<lparr>calls := calls w @ [QuerySelector ''.snap-container'', QuerySelectorAll ''section.snap-page'',
                ConsoleWarn ''Animation system: container or sections not found''],
              container := snap_container w, sections := snap_pages w\<rparr>"
  have r: "init w = Inr w'"
    unfolding w'_def by (rule init_warns [OF assms])
  have f: "\<not> isInitialized w'" "listeners w' = listeners w" "observed w' = observed w"
    "timers w' = timers w" "heap w' = heap w"
    using assms(1) by (simp_all add: w'_def)
  have later: "\<exists>w2. init (w'\<lparr>snap_container := Some c, snap_pages := ps\<rparr>) = Inr w2
             \<and> isInitialized w2 \<and> container w2 = Some c \<and> sections w2 = ps" if "ps \<noteq> []" for c ps
  proof -
    have "\<not> isInitialized (w'\<lparr>snap_container := Some c, snap_pages := ps\<rparr>)"
      "snap_container (w'\<lparr>snap_container := Some c, snap_pages := ps\<rparr>) = Some c"
      "snap_pages (w'\<lparr>snap_container := Some c, snap_pages := ps\<rparr>) \<noteq> []"
      using f(1) that by simp_all
    from init_success [OF this] show ?thesis by auto
  qed
  show ?thesis
    using r f later unfolding w'_def [symmetric] by blast
qed

theorem init_missing_dom_witness:
  "\<not> isInitialized (example_page []) \<and> (snap_container (example_page []) = None \<or> snap_pages (example_page []) = [])
   \<and> (\<exists>w'. init (example_page []) = Inr w'
     \<and> calls w' = [QuerySelector ''.snap-container'', QuerySelectorAll ''section.snap-page'',
                ConsoleWarn ''Animation system: container or sections not found'']
     \<and> \<not> isInitialized w' \<and> listeners w' = [] \<and> timers w' = []
     \<and> (\<exists>w2. init (w'\<lparr>snap_container := Some 0, snap_pages := [1]\<rparr>) = Inr w2 \<and> isInitialized w2))"
proof -
  have i: "\<not> isInitialized (example_page [])"
    by (simp add: example_page_def)
  have d: "snap_container (example_page []) = None \<or> snap_pages (example_page []) = []"
    by (simp add: example_page_def)
  have e: "calls (example_page []) = []" "listeners (example_page []) = []" "timers (example_page []) = []"
    by (simp_all add: example_page_def)
  from init_missing_dom [OF i d] obtain w' where w': "init (example_page []) = Inr w'"
    "w' = (example_page [])\<lparr>calls := calls (example_page []) @ [QuerySelector ''.snap-container'', QuerySelectorAll ''section.snap-page'',
                ConsoleWarn ''Animation system: container or sections not found''],
              container := snap_container (example_page []), sections := snap_pages (example_page [])\<rparr>"
    "\<not> isInitialized w'" "listeners w' = listeners (example_page [])" "timers w' = timers (example_page [])"
    "\<forall>c ps. ps \<noteq> [] \<longrightarrow>
          (\<exists>w2. init (w'\<lparr>snap_container := Some c, snap_pages := ps\<rparr>) = Inr w2
             \<and> isInitialized w2 \<and> container w2 = Some c \<and> sections w2 = ps)"
    by blast
  have "\<exists>w2. init (w'\<lparr>snap_container := Some 0, snap_pages := [1]\<rparr>) = Inr w2 \<and> isInitialized w2"
    using w'(6) [rule_format, of "[1]" 0] by auto
  moreover have "calls w' = [QuerySelector ''.snap-container'', QuerySelectorAll ''section.snap-page'',
                ConsoleWarn ''Animation system: container or sections not found'']"
    by (simp add: w'(2) e)
  ultimately show ?thesis
    using i d w'(1,3,4,5) e by auto
qed

section \<open>The observer's callback\<close>

lemma observer_callback_append:
  "observer_callback (es @ es') w = observer_callback es' (observer_callback es w)"
  by (simp add: observer_callback_def)

lemma observer_callback_single: "observer_callback [e] w = observer_entry e w"
  by (simp add: observer_callback_def)

text \<open>
  An entry as an implementation without \<^verbatim>\<open>isIntersecting\<close> delivers it (the property
  is \<^verbatim>\<open>undefined\<close>, which the test of line 67 reads as false): half of the section is
  in view. Line 67 asks for \<^verbatim>\<open>entry.isIntersecting\<close> as well as for the ratio, so the
  callback leaves the section alone: no call is made and the class is not added.
\<close>

definition example_entry :: entry where
  "example_entry = \<lparr>entry_target = 1, isIntersecting = False, intersectionRatio = 1 / 2\<rparr>"

theorem observer_callback_guard_counterexample:
  "3 / 10 \<le> intersectionRatio example_entry
   \<and> observer_callback [example_entry] (example_tracker [100, 520, 900]) = example_tracker [100, 520, 900]
   \<and> calls (observer_callback [example_entry] (example_tracker [100, 520, 900])) = []
   \<and> \<not> classList_contains (entry_target example_entry) IS_VISIBLE
         (observer_callback [example_entry] (example_tracker [100, 520, 900]))"
  by (simp add: observer_callback_def observer_entry_def example_entry_def example_tracker_def
      example_page_def example_heap_def classList_contains_def)

text \<open>
  C4, as the code has it. The callback handles the entries of a batch one after the
  other. For one entry: when \<^verbatim>\<open>isIntersecting\<close> holds and the ratio is at least 0.3,
  the marker class is removed from the target, \<^verbatim>\<open>offsetWidth\<close> is read, and the
  class is added; when the ratio is below 0.1 the class is removed; in every other case
  (a ratio from 0.1 up to 0.3, or a ratio of at least 0.3 on an entry whose
  \<^verbatim>\<open>isIntersecting\<close> is false) the state is left as it is.
\<close>

theorem observer_callback_thresholds:
  "observer_callback (es @ e # es') w
     = observer_callback es' (observer_callback [e] (observer_callback es w))
   \<and> (isIntersecting e \<and> 3 / 10 \<le> intersectionRatio e \<longrightarrow>
        observer_callback [e] v
          = classList_add (entry_target e) IS_VISIBLE
              (offsetWidth (entry_target e) (classList_remove (entry_target e) IS_VISIBLE v))
        \<and> calls (observer_callback [e] v)
          = calls v @ [ClassListRemove (entry_target e) IS_VISIBLE, OffsetWidth (entry_target e),
                       ClassListAdd (entry_target e) IS_VISIBLE]
        \<and> classList_contains (entry_target e) IS_VISIBLE (observer_callback [e] v))
   \<and> (intersectionRatio e < 1 / 10 \<longrightarrow>
        observer_callback [e] v = classList_remove (entry_target e) IS_VISIBLE v
        \<and> calls (observer_callback [e] v) = calls v @ [ClassListRemove (entry_target e) IS_VISIBLE]
        \<and> \<not> classList_contains (entry_target e) IS_VISIBLE (observer_callback [e] v))
   \<and> (1 / 10 \<le> intersectionRatio e \<and> \<not> (isIntersecting e \<and> 3 / 10 \<le> intersectionRatio e) \<longrightarrow>
        observer_callback [e] v = v)"
proof -
  have a: "observer_callback (es @ e # es') w
     = observer_callback es' (observer_callback [e] (observer_callback es w))"
    using observer_callback_append [of es "[e] @ es'" w] observer_callback_append [of "[e]" es']
    by simp
  have b: "observer_callback [e] v = retrigger (entry_target e) v"
    if "isIntersecting e \<and> 3 / 10 \<le> intersectionRatio e"
    using that by (simp add: observer_callback_single observer_entry_def)
  have c: "observer_callback [e] v = classList_remove (entry_target e) IS_VISIBLE v"
    if "intersectionRatio e < 1 / 10"
    using that by (simp add: observer_callback_single observer_entry_def)
  have d: "observer_callback [e] v = v"
    if "1 / 10 \<le> intersectionRatio e \<and> \<not> (isIntersecting e \<and> 3 / 10 \<le> intersectionRatio e)"
    using that by (auto simp: observer_callback_single observer_entry_def)
  have b': "calls (retrigger (entry_target e) v)
          = calls v @ [ClassListRemove (entry_target e) IS_VISIBLE, OffsetWidth (entry_target e),
                       ClassListAdd (entry_target e) IS_VISIBLE]"
    by (simp add: retrigger_frame retrigger_calls_def)
  have c': "calls (classList_remove (entry_target e) IS_VISIBLE v)
      = calls v @ [ClassListRemove (entry_target e) IS_VISIBLE]"
    by (simp add: classList_remove_frame)
  show ?thesis
    using a b c d b' c' retrigger_contains [of "entry_target e" v]
      classList_remove_contains [of "entry_target e" v]
    by (simp add: retrigger_def)
qed

definition visible_entry :: entry where
  "visible_entry = \<lparr>entry_target = 1, isIntersecting = True, intersectionRatio = 1 / 2\<rparr>"

definition hidden_entry :: entry where
  "hidden_entry = \<lparr>entry_target = 1, isIntersecting = False, intersectionRatio = 0\<rparr>"

definition partial_entry :: entry where
  "partial_entry = \<lparr>entry_target = 1, isIntersecting = True, intersectionRatio = 1 / 5\<rparr>"

theorem observer_callback_thresholds_witness:
  "(isIntersecting visible_entry \<and> 3 / 10 \<le> intersectionRatio visible_entry)
   \<and> calls (observer_callback [visible_entry] (example_tracker [100, 520, 900]))
       = [ClassListRemove 1 IS_VISIBLE, OffsetWidth 1, ClassListAdd 1 IS_VISIBLE]
   \<and> classList_contains 1 IS_VISIBLE (observer_callback [visible_entry] (example_tracker [100, 520, 900]))
   \<and> intersectionRatio hidden_entry < 1 / 10
   \<and> calls (observer_callback [hidden_entry] (example_tracker [100, 520, 900])) = [ClassListRemove 1 IS_VISIBLE]
   \<and> 1 / 10 \<le> intersectionRatio partial_entry
   \<and> \<not> (isIntersecting partial_entry \<and> 3 / 10 \<le> intersectionRatio partial_entry)
   \<and> observer_callback [partial_entry] (example_tracker [100, 520, 900]) = example_tracker [100, 520, 900]"
proof -
  have v: "isIntersecting visible_entry \<and> 3 / 10 \<le> intersectionRatio visible_entry"
    "entry_target visible_entry = 1"
    by (simp_all add: visible_entry_def)
  have h: "intersectionRatio hidden_entry < 1 / 10" "entry_target hidden_entry = 1"
    by (simp_all add: hidden_entry_def)
  have p: "1 / 10 \<le> intersectionRatio partial_entry
      \<and> \<not> (isIntersecting partial_entry \<and> 3 / 10 \<le> intersectionRatio partial_entry)"
    by (simp add: partial_entry_def)
  have k: "calls (example_tracker [100, 520, 900]) = []"
    by (simp add: example_tracker_def example_page_def)
  note t = observer_callback_thresholds [of "[]" _ "[]" "example_tracker [100, 520, 900]"
      "example_tracker [100, 520, 900]", THEN conjunct2]
  have V: "calls (observer_callback [visible_entry] (example_tracker [100, 520, 900]))
       = [ClassListRemove 1 IS_VISIBLE, OffsetWidth 1, ClassListAdd 1 IS_VISIBLE]
     \<and> classList_contains 1 IS_VISIBLE (observer_callback [visible_entry] (example_tracker [100, 520, 900]))"
    using t [of visible_entry, THEN conjunct1, rule_format, OF v(1), THEN conjunct2]
    by (simp add: v(2) k)
  have H: "calls (observer_callback [hidden_entry] (example_tracker [100, 520, 900])) = [ClassListRemove 1 IS_VISIBLE]"
    using t [of hidden_entry, THEN conjunct2, THEN conjunct1, rule_format, OF h(1), THEN conjunct2]
    by (simp add: h(2) k)
  have P: "observer_callback [partial_entry] (example_tracker [100, 520, 900]) = example_tracker [100, 520, 900]"
    using t [of partial_entry, THEN conjunct2, THEN conjunct2, rule_format, OF p] .
  show ?thesis
    using v(1) h(1) p V H P by blast
qed

section \<open>What the operations write\<close>

text \<open>
  \<open>marker_only ss h h'\<close>: the store \<open>h'\<close> differs from \<open>h\<close> at most in whether
  elements of \<open>ss\<close> carry \<^verbatim>\<open>is-visible\<close>. Every element keeps its rectangle and its
  other classes, in their order, and an element outside \<open>ss\<close> is unchanged.
\<close>

definition marker_only :: "ref list \<Rightarrow> (ref \<Rightarrow> element) \<Rightarrow> (ref \<Rightarrow> element) \<Rightarrow> bool" where
  "marker_only ss h h' \<longleftrightarrow>
     (\<forall>r. boundingClientRect (h' r) = boundingClientRect (h r)
        \<and> token_remove IS_VISIBLE (classList (h' r)) = token_remove IS_VISIBLE (classList (h r))
        \<and> (r \<notin> set ss \<longrightarrow> h' r = h r))"

lemma marker_only_refl: "marker_only ss h h"
  by (simp add: marker_only_def)

lemma marker_only_trans: "marker_only ss h h' \<Longrightarrow> marker_only ss h' h'' \<Longrightarrow> marker_only ss h h''"
  by (simp add: marker_only_def)

lemma unmark_other: "boundingClientRect (unmark e) = boundingClientRect e"
  "token_remove IS_VISIBLE (classList (unmark e)) = token_remove IS_VISIBLE (classList e)"
  by (simp_all add: unmark_def token_remove_def)

lemma mark_other: "boundingClientRect (mark e) = boundingClientRect e"
  "token_remove IS_VISIBLE (classList (mark e)) = token_remove IS_VISIBLE (classList e)"
  by (simp_all add: mark_def token_remove_def token_add_def)

lemma marker_only_unmark: "s \<in> set ss \<Longrightarrow> marker_only ss h (h(s := unmark (h s)))"
  by (simp add: marker_only_def unmark_other)

lemma marker_only_mark: "s \<in> set ss \<Longrightarrow> marker_only ss h (h(s := mark (h s)))"
  by (simp add: marker_only_def mark_other)

lemma marker_only_retrigger: "s \<in> set ss \<Longrightarrow> marker_only ss h (h(s := mark (unmark (h s))))"
  by (simp add: marker_only_def mark_other unmark_other)

lemma marker_only_recompute:
  "closest = None \<or> (\<exists>s\<in>set ss. closest = Some s) \<Longrightarrow> marker_only ss h (recompute_heap closest ss h)"
  by (auto simp: marker_only_def recompute_heap_def mark_other unmark_other)

lemma checkVisibleSection_writes:
  "\<exists>w'. checkVisibleSection w = Inr w' \<and> marker_only (sections w) (heap w) (heap w')
     \<and> w' = w\<lparr>heap := heap w', calls := calls w'\<rparr> \<and> sections w' = sections w"
proof (cases "container w")
  case None
  then show ?thesis by (simp add: checkVisibleSection_def marker_only_refl)
next
  case (Some c)
  show ?thesis
    unfolding checkVisibleSection_frame [OF Some]
    by (simp add: marker_only_recompute [OF closestSection_in])
qed

lemma observer_entry_writes:
  assumes "entry_target e \<in> set ss"
  shows "marker_only ss (heap w) (heap (observer_entry e w))
     \<and> observer_entry e w = w\<lparr>heap := heap (observer_entry e w), calls := calls (observer_entry e w)\<rparr>"
  using assms
  by (simp add: observer_entry_def retrigger_frame classList_remove_frame marker_only_refl
      marker_only_unmark marker_only_retrigger del: fun_upd_apply)

lemma observer_callback_writes:
  "\<forall>e\<in>set es. entry_target e \<in> set ss \<Longrightarrow>
     marker_only ss (heap w) (heap (observer_callback es w))
     \<and> observer_callback es w = w\<lparr>heap := heap (observer_callback es w), calls := calls (observer_callback es w)\<rparr>"
proof (induction es arbitrary: w)
  case Nil
  then show ?case by (simp add: observer_callback_def marker_only_refl)
next
  case (Cons e es)
  have c: "observer_callback (e # es) w = observer_callback es (observer_entry e w)"
    by (simp add: observer_callback_def)
  from Cons.prems have e: "entry_target e \<in> set ss" and es: "\<forall>e\<in>set es. entry_target e \<in> set ss"
    by simp_all
  note a = observer_entry_writes [OF e, of w]
  note b = Cons.IH [OF es, of "observer_entry e w"]
  have "marker_only ss (heap w) (heap (observer_callback es (observer_entry e w)))"
    using a b marker_only_trans by blast
  moreover have "observer_callback es (observer_entry e w)
      = w\<lparr>heap := heap (observer_callback es (observer_entry e w)),
          calls := calls (observer_callback es (observer_entry e w))\<rparr>"
  proof -
    have "observer_callback es (observer_entry e w)
      = (observer_entry e w)\<lparr>heap := heap (observer_callback es (observer_entry e w)),
          calls := calls (observer_callback es (observer_entry e w))\<rparr>"
      using b by blast
    also have "\<dots> = (w\<lparr>heap := heap (observer_entry e w), calls := calls (observer_entry e w)\<rparr>)
         \<lparr>heap := heap (observer_callback es (observer_entry e w)),
          calls := calls (observer_callback es (observer_entry e w))\<rparr>"
      using a by simp
    finally show ?thesis by simp
  qed
  ultimately show ?case unfolding c by blast
qed

lemma mark_first_section_writes:
  "marker_only (sections w) (heap w) (heap (mark_first_section w))
   \<and> mark_first_section w = w\<lparr>heap := heap (mark_first_section w), calls := calls (mark_first_section w)\<rparr>"
  by (cases "sections w")
    (simp_all add: mark_first_section_def classList_add_frame marker_only_refl marker_only_mark
      del: fun_upd_apply)

lemma init_writes:
  "\<exists>w'. init w = Inr w' \<and> marker_only (sections w') (heap w) (heap w')"
proof (cases "isInitialized w")
  case True
  then show ?thesis by (simp add: init_initialized marker_only_refl)
next
  case False
  show ?thesis
  proof (cases "snap_container w = None \<or> snap_pages w = []")
    case True
    then show ?thesis
      using False by (auto simp: init_unfold console_warn_def called_def queried_def marker_only_refl)
  next
    case f: False
    then obtain c where c: "snap_container w = Some c" by auto
    have q: "container (queried w) = Some c" "sections (queried w) = snap_pages w"
      "heap (queried w) = heap w"
      using c by (simp_all add: queried_def)
    show ?thesis
    proof (cases "hasIntersectionObserver w")
      case True
      then show ?thesis
        using False f c
        by (simp add: init_unfold setupIntersectionObserver_frame [OF q(1)] setTimeout_frame q
            marker_only_refl)
    next
      case g: False
      define v where "v = (queried w)\<lparr>listeners := listeners (queried w) @ fallback_listeners c,
           calls := calls (queried w) @ register_calls (fallback_listeners c)\<rparr>"
      have v: "sections v = snap_pages w" "heap v = heap w"
        by (simp_all add: v_def q)
      from checkVisibleSection_writes [of v] obtain w3 where w3:
        "checkVisibleSection v = Inr w3" "marker_only (snap_pages w) (heap w) (heap w3)"
        "w3 = v\<lparr>heap := heap w3, calls := calls w3\<rparr>" "sections w3 = snap_pages w"
        unfolding v by blast
      note s3 = w3(4)
      show ?thesis
        using False f c g w3(1,2) s3
        by (simp add: init_unfold setupScrollFallback_unfold [OF q(1)] v_def [symmetric] setTimeout_frame)
    qed
  qed
qed


lemma init_observer_mode:
  assumes "\<not> isInitialized w" "snap_container w = Some c" "snap_pages w \<noteq> []"
    "hasIntersectionObserver w"
  shows "init w =
     Inr (w\<lparr>listeners := listeners w @ observer_listeners c,
           observed := observed w @ snap_pages w,
           timers := timers w @ [\<lparr>timer_id = next_timer w, due = now w + 50, callback = MarkFirstSection\<rparr>],
           next_timer := Suc (next_timer w),
           calls := calls w @ [QuerySelector ''.snap-container'', QuerySelectorAll ''section.snap-page'']
                    @ NewIntersectionObserver # map Observe (snap_pages w)
                    @ register_calls (observer_listeners c) @ [SetTimeout MarkFirstSection 50],
           isInitialized := True, container := Some c, sections := snap_pages w\<rparr>)"
proof -
  have q: "container (queried w) = Some c"
    by (simp add: queried_def assms(2))
  have 1: "init w = (case setupIntersectionObserver (queried w) of
             Inl e \<Rightarrow> Inl e
           | Inr w3 \<Rightarrow> Inr ((snd (setTimeout MarkFirstSection 50 w3))\<lparr>isInitialized := True\<rparr>))"
    using assms by (simp add: init_unfold)
  show ?thesis
    unfolding 1 setupIntersectionObserver_frame [OF q]
    by (simp add: setTimeout_frame queried_def assms(2))
qed

text \<open>
  \<^verbatim>\<open>init\<close> on a page with a container and three sections: it returns, and the
  container has a scroll and a touchend listener and the browser a pending timer that
  were not there before.
\<close>

theorem init_registers_counterexample:
  "\<not> isl (init (example_page [100, 520, 900]))
   \<and> listeners (example_page [100, 520, 900]) = []
   \<and> listeners (projr (init (example_page [100, 520, 900])))
       = [(Element 0, Scroll, ObserverScroll), (Element 0, TouchEnd, ObserverTouchEnd)]
   \<and> timers (example_page [100, 520, 900]) = []
   \<and> timers (projr (init (example_page [100, 520, 900])))
       = [\<lparr>timer_id = 1, due = 50, callback = MarkFirstSection\<rparr>]"
proof -
  have i: "\<not> isInitialized (example_page [100, 520, 900])"
    and c: "snap_container (example_page [100, 520, 900]) = Some 0"
    and p: "snap_pages (example_page [100, 520, 900]) \<noteq> []"
    and o: "hasIntersectionObserver (example_page [100, 520, 900])"
    and e: "listeners (example_page [100, 520, 900]) = []" "timers (example_page [100, 520, 900]) = []"
      "next_timer (example_page [100, 520, 900]) = 1" "now (example_page [100, 520, 900]) = 0"
    by (simp_all add: example_page_def)
  show ?thesis
    unfolding init_observer_mode [OF i c p o]
    by (simp add: e observer_listeners_def)
qed

text \<open>
  C9, as the code has it. \<^verbatim>\<open>checkVisibleSection\<close>, the observer's callback (on entries
  for observed sections) and the delayed activation of the first section return a state
  that differs from the one they were given in the store of elements and in the record
  of calls only, and the store differs only in whether section elements carry
  \<^verbatim>\<open>is-visible\<close>: rectangles, other classes and all other elements are as before.
  \<^verbatim>\<open>init\<close> changes the store of elements within the same bounds. It also assigns the
  tracker's variables, registers listeners and the observer and schedules a timer, or
  writes a warning; this is its purpose and is no part of the statement.
\<close>

theorem operations_write_only_the_marker:
  "(\<exists>w'. checkVisibleSection w = Inr w' \<and> marker_only (sections w) (heap w) (heap w')
        \<and> w' = w\<lparr>heap := heap w', calls := calls w'\<rparr>)
   \<and> ((\<forall>e\<in>set es. entry_target e \<in> set (sections w)) \<longrightarrow>
        marker_only (sections w) (heap w) (heap (observer_callback es w))
        \<and> observer_callback es w
            = w\<lparr>heap := heap (observer_callback es w), calls := calls (observer_callback es w)\<rparr>)
   \<and> marker_only (sections w) (heap w) (heap (mark_first_section w))
   \<and> mark_first_section w
        = w\<lparr>heap := heap (mark_first_section w), calls := calls (mark_first_section w)\<rparr>
   \<and> (\<exists>w'. init w = Inr w' \<and> marker_only (sections w') (heap w) (heap w'))"
  using checkVisibleSection_writes [of w] observer_callback_writes [of es "sections w" w]
    mark_first_section_writes [of w] init_writes [of w]
  by blast

theorem operations_write_only_the_marker_witness:
  "entry_target visible_entry \<in> set (sections (example_tracker [100, 520, 900]))
   \<and> marker_only (sections (example_tracker [100, 520, 900])) (heap (example_tracker [100, 520, 900]))
        (heap (observer_callback [visible_entry] (example_tracker [100, 520, 900])))
   \<and> marker_only (sections (example_tracker [100, 520, 900])) (heap (example_tracker [100, 520, 900]))
        (heap (mark_first_section (example_tracker [100, 520, 900])))
   \<and> (\<exists>w'. checkVisibleSection (example_tracker [100, 520, 900]) = Inr w'
        \<and> marker_only (sections (example_tracker [100, 520, 900])) (heap (example_tracker [100, 520, 900])) (heap w'))
   \<and> (\<exists>w'. init (example_page [100, 520, 900]) = Inr w'
        \<and> marker_only (sections w') (heap (example_page [100, 520, 900])) (heap w'))"
proof -
  have h: "\<forall>e\<in>set [visible_entry]. entry_target e \<in> set (sections (example_tracker [100, 520, 900]))"
    by (simp add: visible_entry_def example_tracker_def)
  then have t: "entry_target visible_entry \<in> set (sections (example_tracker [100, 520, 900]))"
    by simp
  show ?thesis
    using h t operations_write_only_the_marker [of "example_tracker [100, 520, 900]" "[visible_entry]"]
      operations_write_only_the_marker [of "example_page [100, 520, 900]" "[]"]
    by blast
qed

section \<open>Timers and events\<close>

text \<open>
  The browser's side of \<^verbatim>\<open>setTimeout\<close> and \<^verbatim>\<open>addEventListener\<close>. A pending timer
  fires no earlier than it is due; among the timers that are due the one due first
  fires first, and of two due at the same time the one set first. Firing removes the
  timer and runs its callback at the time it was due (or at the present time when that
  is later). Delivering an event at time \<open>t\<close> first fires every timer due by then and
  then runs the listeners registered for the event, in the order of registration.
\<close>

fun earliest :: "timer list \<Rightarrow> timer option" where
  "earliest [] = None"
| "earliest (tm # tms) =
     (case earliest tms of
        None \<Rightarrow> Some tm
      | Some tm' \<Rightarrow> if due tm' < due tm then Some tm' else Some tm)"

definition next_due :: "nat \<Rightarrow> world \<Rightarrow> timer option" where
  "next_due t w = earliest (filter (\<lambda>tm. due tm \<le> t) (timers w))"

text \<open>
  No callback of the script throws (\<open>run_callback_returns\<close> below); the \<open>Inl\<close> branch
  stands for the browser reporting an uncaught exception and going on.
\<close>

definition fire :: "timer \<Rightarrow> world \<Rightarrow> world" where
  "fire tm w =
     (let w1 = w\<lparr>timers := filter (\<lambda>x. timer_id x \<noteq> timer_id tm) (timers w),
                 now := max (now w) (due tm)\<rparr>
      in case run_callback (callback tm) w1 of Inl e \<Rightarrow> w1 | Inr w2 \<Rightarrow> w2)"

fun weight :: "callback \<Rightarrow> nat" where
  "weight Init = 2"
| "weight CheckVisibleSection = 1"
| "weight MarkFirstSection = 1"

definition pending_weight :: "timer list \<Rightarrow> nat" where
  "pending_weight tms = sum_list (map (\<lambda>tm. weight (callback tm)) tms)"

lemma earliest_in: "earliest tms = Some tm \<Longrightarrow> tm \<in> set tms"
  by (induction tms arbitrary: tm) (auto split: option.splits if_splits)

lemma next_due_in: "next_due t w = Some tm \<Longrightarrow> tm \<in> set (timers w) \<and> due tm \<le> t"
  using earliest_in [of "filter (\<lambda>tm. due tm \<le> t) (timers w)" tm] by (simp add: next_due_def)

lemma pending_weight_filter: "pending_weight (filter P tms) \<le> pending_weight tms"
  by (induction tms) (auto simp: pending_weight_def)

lemma pending_weight_Cons: "pending_weight (x # tms) = weight (callback x) + pending_weight tms"
  by (simp add: pending_weight_def)

lemma pending_weight_remove:
  "tm \<in> set tms \<Longrightarrow>
     pending_weight (filter (\<lambda>x. timer_id x \<noteq> timer_id tm) tms) + weight (callback tm) \<le> pending_weight tms"
proof (induction tms)
  case Nil
  then show ?case by simp
next
  case (Cons x tms)
  show ?case
  proof (cases "x = tm")
    case True
    then show ?thesis
      using pending_weight_filter [of "\<lambda>x. timer_id x \<noteq> timer_id tm" tms]
      by (simp add: pending_weight_Cons)
  next
    case False
    with Cons have "pending_weight (filter (\<lambda>x. timer_id x \<noteq> timer_id tm) tms) + weight (callback tm)
        \<le> pending_weight tms" by simp
    then show ?thesis
      by (simp add: pending_weight_Cons)
  qed
qed

lemma weight_pos: "0 < weight cb"
  by (cases cb) simp_all

lemma init_timers:
  "\<exists>w'. init w = Inr w' \<and> pending_weight (timers w') \<le> Suc (pending_weight (timers w))"
proof (cases "isInitialized w")
  case True
  then show ?thesis by (simp add: init_initialized)
next
  case False
  show ?thesis
  proof (cases "snap_container w = None \<or> snap_pages w = []")
    case True
    show ?thesis unfolding init_warns [OF False True] by simp
  next
    case f: False
    then obtain c where c: "snap_container w = Some c" by auto
    from f have p: "snap_pages w \<noteq> []" by simp
    from init_success [OF False c p] show ?thesis
      by (auto simp: pending_weight_def)
  qed
qed

lemma run_callback_returns:
  "\<exists>w'. run_callback cb w = Inr w' \<and> pending_weight (timers w') + 1 \<le> pending_weight (timers w) + weight cb"
proof (cases cb)
  case CheckVisibleSection
  from checkVisibleSection_returns [of w] show ?thesis
    unfolding CheckVisibleSection by auto
next
  case Init
  from init_timers [of w] show ?thesis
    unfolding Init by auto
next
  case MarkFirstSection
  have "timers (mark_first_section w) = timers w"
    by (cases "sections w") (simp_all add: mark_first_section_def classList_add_frame)
  then show ?thesis
    unfolding MarkFirstSection by simp
qed

lemma fire_decreases:
  assumes "tm \<in> set (timers w)"
  shows "pending_weight (timers (fire tm w)) < pending_weight (timers w)"
proof -
  define w1 where "w1 = w\<lparr>timers := filter (\<lambda>x. timer_id x \<noteq> timer_id tm) (timers w),
                 now := max (now w) (due tm)\<rparr>"
  from run_callback_returns [of "callback tm" w1] obtain w2 where
    w2: "run_callback (callback tm) w1 = Inr w2"
      "pending_weight (timers w2) + 1 \<le> pending_weight (timers w1) + weight (callback tm)"
    by blast
  have "fire tm w = w2"
    by (simp add: fire_def w1_def [symmetric] w2(1))
  moreover have "pending_weight (timers w1) + weight (callback tm) \<le> pending_weight (timers w)"
    using pending_weight_remove [OF assms] by (simp add: w1_def)
  ultimately show ?thesis
    using w2(2) by simp
qed

function run_timers :: "nat \<Rightarrow> world \<Rightarrow> world" where
  "run_timers t w =
     (case next_due t w of
        None \<Rightarrow> w\<lparr>now := max (now w) t\<rparr>
      | Some tm \<Rightarrow> run_timers t (fire tm w))"
  by pat_completeness auto
termination
proof (relation "measure (\<lambda>(t, w). pending_weight (timers w))")
  show "wf (measure (\<lambda>(t, w). pending_weight (timers w)))" by simp
next
  fix t w tm
  assume "next_due t w = Some tm"
  then have "tm \<in> set (timers w)" using next_due_in by blast
  then show "((t, fire tm w), (t, w)) \<in> measure (\<lambda>(t, w). pending_weight (timers w))"
    using fire_decreases by simp
qed

declare run_timers.simps [simp del]

definition handlers_for :: "target \<Rightarrow> event_type \<Rightarrow> world \<Rightarrow> handler list" where
  "handlers_for tg ev w =
     map (\<lambda>l. snd (snd l)) (filter (\<lambda>l. fst l = tg \<and> fst (snd l) = ev) (listeners w))"

definition dispatch :: "target \<Rightarrow> event_type \<Rightarrow> world \<Rightarrow> world" where
  "dispatch tg ev w =
     foldl (\<lambda>v h. case run_handler h v of Inl e \<Rightarrow> v | Inr v' \<Rightarrow> v') w (handlers_for tg ev w)"

definition event_at :: "nat \<Rightarrow> target \<Rightarrow> event_type \<Rightarrow> world \<Rightarrow> world" where
  "event_at t tg ev w = dispatch tg ev (run_timers t w)"

fun events_at :: "nat list \<Rightarrow> target \<Rightarrow> event_type \<Rightarrow> world \<Rightarrow> world" where
  "events_at [] tg ev w = w"
| "events_at (t # ts) tg ev w = events_at ts tg ev (event_at t tg ev w)"

text \<open>
  A burst: each event comes no earlier than the one before it and less than the
  debounce delay after it.
\<close>

fun within_debounce :: "nat \<Rightarrow> nat list \<Rightarrow> bool" where
  "within_debounce t [] = True"
| "within_debounce t (u # us) = (t \<le> u \<and> u < t + CONFIG_scrollDebounce \<and> within_debounce u us)"

section \<open>Debounced recomputes\<close>

lemma run_timers_idle: "next_due t w = None \<Longrightarrow> run_timers t w = w\<lparr>now := max (now w) t\<rparr>"
  by (subst run_timers.simps) simp

lemma run_timers_fire: "next_due t w = Some tm \<Longrightarrow> run_timers t w = run_timers t (fire tm w)"
  by (subst run_timers.simps) simp

lemma next_due_empty: "timers v = [] \<Longrightarrow> next_due T v = None"
  by (simp add: next_due_def)

lemma next_due_single: "timers v = [tm] \<Longrightarrow> next_due T v = (if due tm \<le> T then Some tm else None)"
  by (simp add: next_due_def)

lemma mark_first_section_timers:
  "timers (mark_first_section w) = timers w" "now (mark_first_section w) = now w"
  by (cases "sections w"; simp add: mark_first_section_def classList_add_frame)+

lemma single_timer_waits:
  assumes "timers v = [tm]" and "T < due tm"
  shows "run_timers T v = v\<lparr>now := max (now v) T\<rparr>"
  using assms by (simp add: run_timers_idle next_due_single)

lemma single_timer_fires:
  assumes "timers v = [tm]" and "callback tm \<noteq> Init" and "now v \<le> due tm" and "due tm \<le> T"
  shows "\<exists>w'. run_callback (callback tm) (v\<lparr>timers := [], now := due tm\<rparr>) = Inr w'
     \<and> run_timers T v = w'\<lparr>now := T\<rparr>"
proof -
  define w1 where "w1 = v\<lparr>timers := [], now := due tm\<rparr>"
  have w1: "timers w1 = []" "now w1 = due tm" by (simp_all add: w1_def)
  have "\<exists>w'. run_callback (callback tm) w1 = Inr w' \<and> timers w' = [] \<and> now w' = due tm"
  proof (cases "callback tm")
    case CheckVisibleSection
    from checkVisibleSection_returns [of w1] show ?thesis
      unfolding CheckVisibleSection w1 by auto
  next
    case Init
    with assms(2) show ?thesis by simp
  next
    case MarkFirstSection
    show ?thesis
      unfolding MarkFirstSection by (simp add: mark_first_section_timers w1)
  qed
  then obtain w' where w': "run_callback (callback tm) w1 = Inr w'" "timers w' = []" "now w' = due tm"
    by blast
  have f: "fire tm v = w'"
    using assms(1,3) w'(1) by (simp add: fire_def w1_def max_def)
  have "run_timers T v = run_timers T w'"
    using run_timers_fire [of T v tm] assms(1,4) f by (simp add: next_due_single)
  also have "\<dots> = w'\<lparr>now := T\<rparr>"
    using run_timers_idle [OF next_due_empty [OF w'(2)], of T] w'(3) assms(4) by (simp add: max_def)
  finally show ?thesis
    using w'(1) unfolding w1_def by blast
qed

lemma debounce_scroll_frame:
  "debounce_scroll v =
     v\<lparr>timers := filter (\<lambda>tm. Some (timer_id tm) \<noteq> scrollTimer v) (timers v)
                   @ [\<lparr>timer_id = next_timer v, due = now v + 100, callback = CheckVisibleSection\<rparr>],
       next_timer := Suc (next_timer v),
       calls := calls v @ [ClearTimeout (scrollTimer v), SetTimeout CheckVisibleSection 100],
       scrollTimer := Some (next_timer v)\<rparr>"
  by (simp add: debounce_scroll_def clearTimeout_def setTimeout_def called_def Let_def
      CONFIG_scrollDebounce_def)

definition scroll_pending :: "nat \<Rightarrow> world \<Rightarrow> bool" where
  "scroll_pending t v \<longleftrightarrow>
     timers v = [] \<or> (\<exists>tm. timers v = [tm] \<and> scrollTimer v = Some (timer_id tm) \<and> t < due tm)"

lemma scroll_event:
  assumes "handlers_for (Element c) Scroll v = [ObserverScroll]"
    and "scroll_pending t v" and "now v \<le> t"
  shows "event_at t (Element c) Scroll v =
     v\<lparr>timers := [\<lparr>timer_id = next_timer v, due = t + 100, callback = CheckVisibleSection\<rparr>],
       next_timer := Suc (next_timer v), now := t,
       calls := calls v @ [ClearTimeout (scrollTimer v), SetTimeout CheckVisibleSection 100],
       scrollTimer := Some (next_timer v)\<rparr>"
proof -
  have idle: "next_due t v = None"
    using assms(2) by (auto simp: scroll_pending_def next_due_empty next_due_single)
  have r: "run_timers t v = v\<lparr>now := t\<rparr>"
    using run_timers_idle [OF idle] assms(3) by (simp add: max_def)
  have h: "handlers_for (Element c) Scroll (v\<lparr>now := t\<rparr>) = [ObserverScroll]"
    using assms(1) by (simp add: handlers_for_def)
  have cl: "filter (\<lambda>tm. Some (timer_id tm) \<noteq> scrollTimer v) (timers v) = []"
    using assms(2) by (auto simp: scroll_pending_def)
  show ?thesis
    unfolding event_at_def r dispatch_def h
    by (simp add: debounce_scroll_frame cl)
qed

fun burst_calls :: "nat option \<Rightarrow> nat \<Rightarrow> nat list \<Rightarrow> call list" where
  "burst_calls st n [] = []"
| "burst_calls st n (t # ts) =
     ClearTimeout st # SetTimeout CheckVisibleSection 100 # burst_calls (Some n) (Suc n) ts"

lemma scroll_burst:
  assumes "handlers_for (Element c) Scroll v = [ObserverScroll]"
    and "scroll_pending t v" and "now v \<le> t" and "within_debounce t ts"
  shows "events_at (t # ts) (Element c) Scroll v =
     v\<lparr>timers := [\<lparr>timer_id = next_timer v + length ts, due = last (t # ts) + 100,
                    callback = CheckVisibleSection\<rparr>],
       next_timer := Suc (next_timer v + length ts), now := last (t # ts),
       calls := calls v @ burst_calls (scrollTimer v) (next_timer v) (t # ts),
       scrollTimer := Some (next_timer v + length ts)\<rparr>"
  using assms
proof (induction ts arbitrary: t v)
  case Nil
  then show ?case by (simp add: scroll_event)
next
  case (Cons u us)
  define v1 where "v1 = event_at t (Element c) Scroll v"
  have v1: "v1 = v\<lparr>timers := [\<lparr>timer_id = next_timer v, due = t + 100, callback = CheckVisibleSection\<rparr>],
       next_timer := Suc (next_timer v), now := t,
       calls := calls v @ [ClearTimeout (scrollTimer v), SetTimeout CheckVisibleSection 100],
       scrollTimer := Some (next_timer v)\<rparr>"
    unfolding v1_def by (rule scroll_event) (use Cons.prems in simp_all)
  have u: "t \<le> u" "u < t + 100" "within_debounce u us"
    using Cons.prems(4) by (simp_all add: CONFIG_scrollDebounce_def)
  have a: "handlers_for (Element c) Scroll v1 = [ObserverScroll]"
    using Cons.prems(1) by (simp add: v1 handlers_for_def)
  have b: "scroll_pending u v1"
    using u(2) by (simp add: v1 scroll_pending_def)
  have c: "now v1 \<le> u"
    using u(1) by (simp add: v1)
  have "events_at (t # u # us) (Element c) Scroll v = events_at (u # us) (Element c) Scroll v1"
    by (simp add: v1_def)
  also have "\<dots> = v1\<lparr>timers := [\<lparr>timer_id = next_timer v1 + length us, due = last (u # us) + 100,
                    callback = CheckVisibleSection\<rparr>],
       next_timer := Suc (next_timer v1 + length us), now := last (u # us),
       calls := calls v1 @ burst_calls (scrollTimer v1) (next_timer v1) (u # us),
       scrollTimer := Some (next_timer v1 + length us)\<rparr>"
    by (rule Cons.IH [OF a b c u(3)])
  also have "\<dots> = v\<lparr>timers := [\<lparr>timer_id = next_timer v + length (u # us), due = last (t # u # us) + 100,
                    callback = CheckVisibleSection\<rparr>],
       next_timer := Suc (next_timer v + length (u # us)), now := last (t # u # us),
       calls := calls v @ burst_calls (scrollTimer v) (next_timer v) (t # u # us),
       scrollTimer := Some (next_timer v + length (u # us))\<rparr>"
    by (simp add: v1)
  finally show ?case .
qed


lemma touch_event:
  assumes "handlers_for (Element c) TouchEnd v = [ObserverTouchEnd]"
    and "timers v = []" and "now v \<le> t"
  shows "event_at t (Element c) TouchEnd v =
     v\<lparr>timers := [\<lparr>timer_id = next_timer v, due = t + 200, callback = CheckVisibleSection\<rparr>],
       next_timer := Suc (next_timer v), now := t,
       calls := calls v @ [SetTimeout CheckVisibleSection 200]\<rparr>"
proof -
  have r: "run_timers t v = v\<lparr>now := t\<rparr>"
    using run_timers_idle [OF next_due_empty [OF assms(2)], of t] assms(3) by (simp add: max_def)
  have h: "handlers_for (Element c) TouchEnd (v\<lparr>now := t\<rparr>) = [ObserverTouchEnd]"
    using assms(1) by (simp add: handlers_for_def)
  show ?thesis
    unfolding event_at_def r dispatch_def h
    by (simp add: setTimeout_frame assms(2))
qed

text \<open>
  C7. Take a state in which the container's scroll listener and touchend listener are
  the ones observer mode registers and no timer is pending, and a burst of scroll
  events at times \<open>t # ts\<close>, each less than 100 ms after the one before. Every event of
  the burst clears the timer of the one before and sets a new one (\<open>burst_calls\<close>
  lists these calls), so after the burst exactly one timer is pending, due 100 ms after
  the last event, and no element has been touched. Until then no timer fires. From then
  on the state is the one that a single \<^verbatim>\<open>checkVisibleSection\<close> leaves, run at that
  time on the state the burst left. A touchend event sets one timer due 200 ms later,
  cancels nothing, and the recompute runs once when the 200 ms are over.
\<close>

theorem scroll_and_touch_debounce:
  assumes "handlers_for (Element c) Scroll w = [ObserverScroll]"
    and "handlers_for (Element c) TouchEnd w = [ObserverTouchEnd]"
    and "timers w = []" and "now w \<le> t" and "within_debounce t ts"
  shows "timers (events_at (t # ts) (Element c) Scroll w)
        = [\<lparr>timer_id = next_timer w + length ts, due = last (t # ts) + 100,
            callback = CheckVisibleSection\<rparr>]
     \<and> heap (events_at (t # ts) (Element c) Scroll w) = heap w
     \<and> calls (events_at (t # ts) (Element c) Scroll w)
        = calls w @ burst_calls (scrollTimer w) (next_timer w) (t # ts)
     \<and> (\<forall>T<last (t # ts) + 100.
          run_timers T (events_at (t # ts) (Element c) Scroll w)
            = (events_at (t # ts) (Element c) Scroll w)\<lparr>now := max (last (t # ts)) T\<rparr>)
     \<and> (\<forall>T\<ge>last (t # ts) + 100.
          \<exists>w'. checkVisibleSection
                 ((events_at (t # ts) (Element c) Scroll w)\<lparr>timers := [], now := last (t # ts) + 100\<rparr>)
                 = Inr w'
             \<and> run_timers T (events_at (t # ts) (Element c) Scroll w) = w'\<lparr>now := T\<rparr>)
     \<and> timers (event_at t (Element c) TouchEnd w)
        = [\<lparr>timer_id = next_timer w, due = t + 200, callback = CheckVisibleSection\<rparr>]
     \<and> (\<forall>T<t + 200.
          run_timers T (event_at t (Element c) TouchEnd w)
            = (event_at t (Element c) TouchEnd w)\<lparr>now := max t T\<rparr>)
     \<and> (\<forall>T\<ge>t + 200.
          \<exists>w'. checkVisibleSection ((event_at t (Element c) TouchEnd w)\<lparr>timers := [], now := t + 200\<rparr>)
                 = Inr w'
             \<and> run_timers T (event_at t (Element c) TouchEnd w) = w'\<lparr>now := T\<rparr>)
     \<and> (\<forall>v. \<exists>v'. run_handler ObserverTouchEnd v = Inr v'
          \<and> timers v' = timers v
               @ [\<lparr>timer_id = next_timer v, due = now v + 200, callback = CheckVisibleSection\<rparr>])"
proof -
  define wb where "wb = events_at (t # ts) (Element c) Scroll w"
  define wt where "wt = event_at t (Element c) TouchEnd w"
  have p: "scroll_pending t w"
    using assms(3) by (simp add: scroll_pending_def)
  note b = scroll_burst [OF assms(1) p assms(4,5), folded wb_def]
  have bt: "timers wb = [\<lparr>timer_id = next_timer w + length ts, due = last (t # ts) + 100,
            callback = CheckVisibleSection\<rparr>]"
    and bh: "heap wb = heap w"
    and bc: "calls wb = calls w @ burst_calls (scrollTimer w) (next_timer w) (t # ts)"
    and bn: "now wb = last (t # ts)"
    unfolding b by simp_all
  have b1: "run_timers T wb = wb\<lparr>now := max (last (t # ts)) T\<rparr>" if "T < last (t # ts) + 100" for T
    using single_timer_waits [OF bt, of T] that unfolding bn by simp
  have b2: "\<exists>w'. checkVisibleSection (wb\<lparr>timers := [], now := last (t # ts) + 100\<rparr>) = Inr w'
             \<and> run_timers T wb = w'\<lparr>now := T\<rparr>" if "last (t # ts) + 100 \<le> T" for T
    using single_timer_fires [OF bt, of T] that unfolding bn by simp
  note e = touch_event [OF assms(2,3,4), folded wt_def]
  have tt: "timers wt = [\<lparr>timer_id = next_timer w, due = t + 200, callback = CheckVisibleSection\<rparr>]"
    and tn: "now wt = t"
    unfolding e by simp_all
  have t1: "run_timers T wt = wt\<lparr>now := max t T\<rparr>" if "T < t + 200" for T
    using single_timer_waits [OF tt, of T] that unfolding tn by simp
  have t2: "\<exists>w'. checkVisibleSection (wt\<lparr>timers := [], now := t + 200\<rparr>) = Inr w'
             \<and> run_timers T wt = w'\<lparr>now := T\<rparr>" if "t + 200 \<le> T" for T
    using single_timer_fires [OF tt, of T] that unfolding tn by simp
  have t3: "\<exists>v'. run_handler ObserverTouchEnd v = Inr v'
          \<and> timers v' = timers v
               @ [\<lparr>timer_id = next_timer v, due = now v + 200, callback = CheckVisibleSection\<rparr>]" for v
    by (simp add: setTimeout_frame)
  show ?thesis
    unfolding wb_def [symmetric] wt_def [symmetric]
    using bt bh bc b1 b2 tt t1 t2 t3 by blast
qed


theorem scroll_and_touch_debounce_witness:
  "handlers_for (Element 0) Scroll (example_tracker [100, 520, 900]) = [ObserverScroll]
   \<and> handlers_for (Element 0) TouchEnd (example_tracker [100, 520, 900]) = [ObserverTouchEnd]
   \<and> timers (example_tracker [100, 520, 900]) = []
   \<and> now (example_tracker [100, 520, 900]) \<le> 0
   \<and> within_debounce 0 [5, 10, 15, 20, 25, 30, 35, 40, 45]
   \<and> timers (events_at [0, 5, 10, 15, 20, 25, 30, 35, 40, 45] (Element 0) Scroll (example_tracker [100, 520, 900]))
       = [\<lparr>timer_id = 10, due = 145, callback = CheckVisibleSection\<rparr>]
   \<and> run_timers 144 (events_at [0, 5, 10, 15, 20, 25, 30, 35, 40, 45] (Element 0) Scroll (example_tracker [100, 520, 900]))
       = (events_at [0, 5, 10, 15, 20, 25, 30, 35, 40, 45] (Element 0) Scroll (example_tracker [100, 520, 900]))
           \<lparr>now := 144\<rparr>
   \<and> (\<exists>w'. checkVisibleSection
              ((events_at [0, 5, 10, 15, 20, 25, 30, 35, 40, 45] (Element 0) Scroll (example_tracker [100, 520, 900]))
                 \<lparr>timers := [], now := 145\<rparr>) = Inr w'
          \<and> run_timers 145 (events_at [0, 5, 10, 15, 20, 25, 30, 35, 40, 45] (Element 0) Scroll (example_tracker [100, 520, 900]))
              = w'\<lparr>now := 145\<rparr>)
   \<and> timers (event_at 0 (Element 0) TouchEnd (example_tracker [100, 520, 900]))
       = [\<lparr>timer_id = 1, due = 200, callback = CheckVisibleSection\<rparr>]"
proof -
  have h1: "handlers_for (Element 0) Scroll (example_tracker [100, 520, 900]) = [ObserverScroll]"
    and h2: "handlers_for (Element 0) TouchEnd (example_tracker [100, 520, 900]) = [ObserverTouchEnd]"
    and h3: "timers (example_tracker [100, 520, 900]) = []"
    and h4: "now (example_tracker [100, 520, 900]) \<le> 0"
    and n: "next_timer (example_tracker [100, 520, 900]) = 1"
    by (simp_all add: handlers_for_def example_tracker_def example_page_def)
  have h5: "within_debounce 0 [5, 10, 15, 20, 25, 30, 35, 40, 45]"
    by (simp add: CONFIG_scrollDebounce_def)
  note r = scroll_and_touch_debounce [OF h1 h2 h3 h4 h5]
  have a: "timers (events_at [0, 5, 10, 15, 20, 25, 30, 35, 40, 45] (Element 0) Scroll (example_tracker [100, 520, 900]))
       = [\<lparr>timer_id = 10, due = 145, callback = CheckVisibleSection\<rparr>]"
    using r [THEN conjunct1] by (simp add: n)
  have b: "run_timers 144 (events_at [0, 5, 10, 15, 20, 25, 30, 35, 40, 45] (Element 0) Scroll (example_tracker [100, 520, 900]))
       = (events_at [0, 5, 10, 15, 20, 25, 30, 35, 40, 45] (Element 0) Scroll (example_tracker [100, 520, 900]))
           \<lparr>now := 144\<rparr>"
    using r [THEN conjunct2, THEN conjunct2, THEN conjunct2, THEN conjunct1, rule_format, of 144]
    by simp
  have c: "\<exists>w'. checkVisibleSection
              ((events_at [0, 5, 10, 15, 20, 25, 30, 35, 40, 45] (Element 0) Scroll (example_tracker [100, 520, 900]))
                 \<lparr>timers := [], now := 145\<rparr>) = Inr w'
          \<and> run_timers 145 (events_at [0, 5, 10, 15, 20, 25, 30, 35, 40, 45] (Element 0) Scroll (example_tracker [100, 520, 900]))
              = w'\<lparr>now := 145\<rparr>"
    using r [THEN conjunct2, THEN conjunct2, THEN conjunct2, THEN conjunct2, THEN conjunct1,
        rule_format, of 145]
    by simp
  have d: "timers (event_at 0 (Element 0) TouchEnd (example_tracker [100, 520, 900]))
       = [\<lparr>timer_id = 1, due = 200, callback = CheckVisibleSection\<rparr>]"
    using r [THEN conjunct2, THEN conjunct2, THEN conjunct2, THEN conjunct2, THEN conjunct2,
        THEN conjunct1]
    by (simp add: n)
  show ?thesis
    using h1 h2 h3 h4 h5 a b c d by blast
qed

section \<open>The first section after initialization\<close>

text \<open>
  C8. A successful \<^verbatim>\<open>init\<close> (one that finds a container and a first section \<open>s\<close>)
  leaves one more pending timer than it found, due 50 ms after the time of the call,
  whose callback adds \<^verbatim>\<open>is-visible\<close> to \<open>s\<close>. The callback reads no geometry: in every
  state with the same section list, whatever the rectangles and classes, it returns the
  state with the class added to \<open>s\<close>. When no other timer is pending, nothing fires
  before the 50 ms are over, and from then on \<open>s\<close> carries the class.
\<close>

theorem init_marks_first_section_after_delay:
  assumes "\<not> isInitialized w" and "snap_container w = Some c" and "snap_pages w = s # ss"
  shows "\<exists>w'. init w = Inr w' \<and> isInitialized w' \<and> sections w' = s # ss
     \<and> timers w' = timers w @ [\<lparr>timer_id = next_timer w, due = now w + 50, callback = MarkFirstSection\<rparr>]
     \<and> (\<forall>v. sections v = s # ss \<longrightarrow>
           run_callback MarkFirstSection v = Inr (classList_add s IS_VISIBLE v)
           \<and> classList_contains s IS_VISIBLE (classList_add s IS_VISIBLE v))
     \<and> (timers w = [] \<longrightarrow>
           (\<forall>T<now w + 50. run_timers T w' = w'\<lparr>now := max (now w) T\<rparr>)
         \<and> (\<forall>T\<ge>now w + 50.
               run_timers T w' = (classList_add s IS_VISIBLE (w'\<lparr>timers := [], now := now w + 50\<rparr>))\<lparr>now := T\<rparr>
             \<and> classList_contains s IS_VISIBLE (run_timers T w')))"
proof -
  have p: "snap_pages w \<noteq> []" using assms(3) by simp
  from init_success [OF assms(1,2) p] obtain w' where w': "init w = Inr w'" "isInitialized w'"
    "sections w' = s # ss"
    "timers w' = timers w @ [\<lparr>timer_id = next_timer w, due = now w + 50, callback = MarkFirstSection\<rparr>]"
    "now w' = now w"
    unfolding assms(3) by blast
  have m: "run_callback MarkFirstSection v = Inr (classList_add s IS_VISIBLE v)
           \<and> classList_contains s IS_VISIBLE (classList_add s IS_VISIBLE v)" if "sections v = s # ss" for v
    using that
    by (simp add: mark_first_section_def classList_add_frame classList_contains_def marker_in_mark)
  have l: "(\<forall>T<now w + 50. run_timers T w' = w'\<lparr>now := max (now w) T\<rparr>)
         \<and> (\<forall>T\<ge>now w + 50.
               run_timers T w' = (classList_add s IS_VISIBLE (w'\<lparr>timers := [], now := now w + 50\<rparr>))\<lparr>now := T\<rparr>
             \<and> classList_contains s IS_VISIBLE (run_timers T w'))" if e: "timers w = []"
  proof -
    have t: "timers w' = [\<lparr>timer_id = next_timer w, due = now w + 50, callback = MarkFirstSection\<rparr>]"
      using w'(4) e by simp
    have 1: "run_timers T w' = w'\<lparr>now := max (now w) T\<rparr>" if "T < now w + 50" for T
      using single_timer_waits [OF t, of T] that by (simp add: w'(5))
    have 2: "run_timers T w' = (classList_add s IS_VISIBLE (w'\<lparr>timers := [], now := now w + 50\<rparr>))\<lparr>now := T\<rparr>
             \<and> classList_contains s IS_VISIBLE (run_timers T w')" if "now w + 50 \<le> T" for T
    proof -
      have sv: "sections (w'\<lparr>timers := [], now := now w + 50\<rparr>) = s # ss"
        by (simp add: w'(3))
      have ms: "mark_first_section (w'\<lparr>timers := [], now := now w + 50\<rparr>)
          = classList_add s IS_VISIBLE (w'\<lparr>timers := [], now := now w + 50\<rparr>)"
        using sv by (simp add: mark_first_section_def)
      from single_timer_fires [OF t, of T] that w'(5)
      have "run_timers T w' = (classList_add s IS_VISIBLE (w'\<lparr>timers := [], now := now w + 50\<rparr>))\<lparr>now := T\<rparr>"
        by (simp add: ms)
      then show ?thesis
        by (simp add: classList_add_frame classList_contains_def marker_in_mark)
    qed
    show ?thesis using 1 2 by blast
  qed
  show ?thesis
    using w'(1,2,3,4) m l by blast
qed

theorem init_marks_first_section_after_delay_witness:
  "\<not> isInitialized (example_page [100, 520, 900])
   \<and> snap_container (example_page [100, 520, 900]) = Some 0
   \<and> snap_pages (example_page [100, 520, 900]) = 1 # [2, 3]
   \<and> timers (example_page [100, 520, 900]) = []
   \<and> (\<exists>w'. init (example_page [100, 520, 900]) = Inr w'
        \<and> timers w' = [\<lparr>timer_id = 1, due = 50, callback = MarkFirstSection\<rparr>]
        \<and> run_timers 49 w' = w'\<lparr>now := 49\<rparr>
        \<and> classList_contains 1 IS_VISIBLE (run_timers 50 w'))"
proof -
  have i: "\<not> isInitialized (example_page [100, 520, 900])"
    and c: "snap_container (example_page [100, 520, 900]) = Some 0"
    and p: "snap_pages (example_page [100, 520, 900]) = 1 # [2, 3]"
    and e: "timers (example_page [100, 520, 900]) = []"
    and n: "next_timer (example_page [100, 520, 900]) = 1" "now (example_page [100, 520, 900]) = 0"
    by (simp_all add: example_page_def)
  from init_marks_first_section_after_delay [OF i c p] obtain w' where
    w': "init (example_page [100, 520, 900]) = Inr w'"
      "timers w' = timers (example_page [100, 520, 900])
          @ [\<lparr>timer_id = next_timer (example_page [100, 520, 900]),
              due = now (example_page [100, 520, 900]) + 50, callback = MarkFirstSection\<rparr>]"
      "timers (example_page [100, 520, 900]) = [] \<longrightarrow>
           (\<forall>T<now (example_page [100, 520, 900]) + 50.
               run_timers T w' = w'\<lparr>now := max (now (example_page [100, 520, 900])) T\<rparr>)
         \<and> (\<forall>T\<ge>now (example_page [100, 520, 900]) + 50.
               run_timers T w' = (classList_add 1 IS_VISIBLE
                   (w'\<lparr>timers := [], now := now (example_page [100, 520, 900]) + 50\<rparr>))\<lparr>now := T\<rparr>
             \<and> classList_contains 1 IS_VISIBLE (run_timers T w'))"
    by blast
  have a: "timers w' = [\<lparr>timer_id = 1, due = 50, callback = MarkFirstSection\<rparr>]"
    using w'(2) by (simp add: e n)
  have b: "run_timers 49 w' = w'\<lparr>now := 49\<rparr>"
    using w'(3) [rule_format, OF e, THEN conjunct1, rule_format, of 49] by (simp add: n)
  have d: "classList_contains 1 IS_VISIBLE (run_timers 50 w')"
    using w'(3) [rule_format, OF e, THEN conjunct2, rule_format, of 50, THEN conjunct2]
    by (simp add: n)
  show ?thesis
    using i c p e w'(1) a b d by blast
qed

end
